theory Spec2Isabelle
  imports Complex_Main "HOL-Library.AList" "HOL-Library.Char_ord" "HOL-Library.List_Lexorder"
begin

section \<open>Messages\<close>

text \<open>
  The plans of \<^verbatim>\<open>scans.py\<close> are generators of \<^verbatim>\<open>Msg\<close> values. A generator is
  modelled by the list of messages it yields, together with the way it ends; the values
  the interpreter sends back at the \<^verbatim>\<open>read\<close> yields are arguments of the model.
  Device values and intensities are Python and numpy floats; the model computes with
  real numbers, so rounding, overflow, \<^verbatim>\<open>inf\<close> and \<^verbatim>\<open>nan\<close> are outside of it.
\<close>

datatype error = NotImplementedError | TypeError | ValueError | NonFinite

datatype command =
  Logbook | Configure | Deconfigure | Checkpoint | Create | Set | Trigger | Wait | Read
  | Save | Sleep

datatype arg = Num real | Str string

type_synonym device = string

text \<open>
  Modelled from the spec: the class \<^verbatim>\<open>Msg\<close> of \<^verbatim>\<open>run_engine.py\<close>, which is not among
  the sources. A message has a command, an optional target device, the positional
  arguments and the optional keyword \<^verbatim>\<open>block_group\<close>.
\<close>

record msg =
  command :: command
  obj :: "device option"
  args :: "arg list"
  block_group :: "string option"

definition Msg :: "command \<Rightarrow> device option \<Rightarrow> arg list \<Rightarrow> string option \<Rightarrow> msg" where
  "Msg c d a g = \<lparr>command = c, obj = d, args = a, block_group = g\<rparr>"

datatype outcome = Finished | Raised error

text \<open>
  What a \<^verbatim>\<open>read\<close> sends back: a dict from field names to \<^verbatim>\<open>{'value': v, ...}\<close>, as an
  association list of the fields in the dict's order. A value is a Python number or a
  numpy scalar; the two differ in \<^verbatim>\<open>list + value\<close>.
\<close>

datatype scalar = PyNum real | NpNum real

fun val :: "scalar \<Rightarrow> real" where
  "val (PyNum x) = x"
| "val (NpNum x) = x"

type_synonym reading = "(string \<times> scalar) list"

section \<open>The plan base and the linear plans\<close>

text \<open>
  \<^verbatim>\<open>Scan.__iter__\<close>: the \<^verbatim>\<open>logbook\<close> message, then the messages of \<^verbatim>\<open>_gen\<close>. The text of
  \<^verbatim>\<open>logmsg()\<close> is an argument; the keywords of \<^verbatim>\<open>logdict()\<close> are not modelled.
\<close>

definition Scan_iter :: "string \<Rightarrow> msg list \<times> outcome \<Rightarrow> msg list \<times> outcome" where
  "Scan_iter logmsg gen = (Msg Logbook None [Str logmsg] None # fst gen, snd gen)"

text \<open>\<^verbatim>\<open>Scan._gen\<close> of the base class raises at once.\<close>

definition Scan_gen :: "msg list \<times> outcome" where
  "Scan_gen = ([], Raised NotImplementedError)"

text \<open>\<^verbatim>\<open>Count._gen\<close>; \<^verbatim>\<open>range(num)\<close> is empty for a negative \<^verbatim>\<open>num\<close>.\<close>

definition Count_cycle :: "device list \<Rightarrow> real \<Rightarrow> msg list" where
  "Count_cycle dets delay =
     [Msg Checkpoint None [] None, Msg Create None [] None]
     @ map (\<lambda>det. Msg Trigger (Some det) [] (Some ''A'')) dets
     @ map (\<lambda>det. Msg Wait None [Str ''A''] None) dets
     @ map (\<lambda>det. Msg Read (Some det) [] None) dets
     @ [Msg Save None [] None, Msg Sleep None [Num delay] None]"

definition Count_gen :: "device list \<Rightarrow> int \<Rightarrow> real \<Rightarrow> msg list \<times> outcome" where
  "Count_gen dets num delay =
     (map (\<lambda>d. Msg Configure (Some d) [] None) dets
      @ concat (replicate (nat num) (Count_cycle dets delay))
      @ map (\<lambda>d. Msg Deconfigure (Some d) [] None) dets, Finished)"

text \<open>\<^verbatim>\<open>Scan1D._gen\<close>, over the values of \<^verbatim>\<open>self._steps\<close>.\<close>

definition Scan1D_cycle :: "device \<Rightarrow> device list \<Rightarrow> real \<Rightarrow> msg list" where
  "Scan1D_cycle mot dets stp =
     [Msg Checkpoint None [] None,
      Msg Set (Some mot) [Num stp] (Some ''A''),
      Msg Wait None [Str ''A''] None,
      Msg Create None [] None,
      Msg Read (Some mot) [] None]
     @ map (\<lambda>det. Msg Trigger (Some det) [] (Some ''B'')) dets
     @ map (\<lambda>det. Msg Wait None [Str ''B''] None) dets
     @ map (\<lambda>det. Msg Read (Some det) [] None) dets
     @ [Msg Save None [] None]"

definition Scan1D_gen :: "device \<Rightarrow> device list \<Rightarrow> real list \<Rightarrow> msg list \<times> outcome" where
  "Scan1D_gen mot dets stps =
     (map (\<lambda>d. Msg Configure (Some d) [] None) dets
      @ concat (map (Scan1D_cycle mot dets) stps)
      @ map (\<lambda>d. Msg Deconfigure (Some d) [] None) dets, Finished)"

text \<open>
  The \<^verbatim>\<open>steps\<close> of a scan are a Python list or a numpy array. Both are iterated alike;
  they differ in \<^verbatim>\<open>steps + current_value\<close>: an array adds the value to every element,
  and so does a list when the value is a numpy scalar (numpy's reflected addition), and
  a list with a Python number raises \<^verbatim>\<open>TypeError\<close>.
\<close>

datatype steps = PyList "real list" | NdArray "real list"

fun items :: "steps \<Rightarrow> real list" where
  "items (PyList xs) = xs"
| "items (NdArray xs) = xs"

fun py_add :: "steps \<Rightarrow> scalar \<Rightarrow> error + steps" where
  "py_add (NdArray xs) v = Inr (NdArray (map (\<lambda>x. x + val v) xs))"
| "py_add (PyList xs) (NpNum v) = Inr (NdArray (map (\<lambda>x. x + v) xs))"
| "py_add (PyList xs) (PyNum v) = Inl TypeError"

definition Ascan_gen :: "device \<Rightarrow> device list \<Rightarrow> steps \<Rightarrow> msg list \<times> outcome" where
  "Ascan_gen mot dets stps = Scan1D_gen mot dets (items stps)"

text \<open>
  The head of \<^verbatim>\<open>Dscan._gen\<close> and of \<^verbatim>\<open>AdaptiveDscan._gen\<close> after the first read: \<open>ret\<close>
  is what the read of the motor sent back, with one entry for every key of the dict.
  \<^verbatim>\<open>key, = ret.keys()\<close> raises \<^verbatim>\<open>ValueError\<close> on an empty dict.
\<close>

definition current_value :: "reading \<Rightarrow> error + scalar" where
  "current_value ret =
     (if length ret > 1 then Inl NotImplementedError
      else case ret of [] \<Rightarrow> Inl ValueError | (key, v) # _ \<Rightarrow> Inr v)"

text \<open>\<^verbatim>\<open>Dscan._gen\<close>: the read of the motor, then the scan over the shifted steps.\<close>

definition Dscan_gen ::
  "device \<Rightarrow> device list \<Rightarrow> steps \<Rightarrow> reading \<Rightarrow> msg list \<times> outcome" where
  "Dscan_gen mot dets stps ret =
     (case current_value ret of
        Inl e \<Rightarrow> ([Msg Read (Some mot) [] None], Raised e)
      | Inr v \<Rightarrow>
          (case py_add stps v of
             Inl e \<Rightarrow> ([Msg Read (Some mot) [] None], Raised e)
           | Inr shifted \<Rightarrow>
               (Msg Read (Some mot) [] None # fst (Scan1D_gen mot dets (items shifted)),
                snd (Scan1D_gen mot dets (items shifted)))))"

text \<open>
  \<^verbatim>\<open>np.linspace(start, stop, num)\<close> and \<^verbatim>\<open>np.logspace(start, stop, num)\<close> of numpy, after
  numpy's own code: \<^verbatim>\<open>num\<close> points \<^verbatim>\<open>start + i * step\<close> with \<^verbatim>\<open>step = (stop - start) /
  (num - 1)\<close>, the last one set to \<^verbatim>\<open>stop\<close> when \<^verbatim>\<open>num > 1\<close>; a negative \<^verbatim>\<open>num\<close> raises
  \<^verbatim>\<open>ValueError\<close>. \<^verbatim>\<open>logspace\<close> is ten to the power of these points.
\<close>

definition np_linspace :: "real \<Rightarrow> real \<Rightarrow> int \<Rightarrow> error + real list" where
  "np_linspace a b num =
     (if num < 0 then Inl ValueError
      else Inr (map (\<lambda>i. if 1 < num \<and> int i = num - 1 then b
                          else if 0 < num - 1 then a + real i * ((b - a) / real_of_int (num - 1))
                          else a + real i * (b - a))
                  [0..<nat num]))"

definition np_logspace :: "real \<Rightarrow> real \<Rightarrow> int \<Rightarrow> error + real list" where
  "np_logspace a b num =
     (case np_linspace a b num of Inl e \<Rightarrow> Inl e | Inr ys \<Rightarrow> Inr (map (\<lambda>y. 10 powr y) ys))"

definition LinAscan_gen ::
  "device \<Rightarrow> device list \<Rightarrow> real \<Rightarrow> real \<Rightarrow> int \<Rightarrow> msg list \<times> outcome" where
  "LinAscan_gen mot dets a b num =
     (case np_linspace a b num of
        Inl e \<Rightarrow> ([], Raised e) | Inr stps \<Rightarrow> Scan1D_gen mot dets stps)"

definition LogAscan_gen ::
  "device \<Rightarrow> device list \<Rightarrow> real \<Rightarrow> real \<Rightarrow> int \<Rightarrow> msg list \<times> outcome" where
  "LogAscan_gen mot dets a b num =
     (case np_logspace a b num of
        Inl e \<Rightarrow> ([], Raised e) | Inr stps \<Rightarrow> Scan1D_gen mot dets stps)"

definition LinDscan_gen ::
  "device \<Rightarrow> device list \<Rightarrow> real \<Rightarrow> real \<Rightarrow> int \<Rightarrow> reading \<Rightarrow> msg list \<times> outcome" where
  "LinDscan_gen mot dets a b num ret =
     (case np_linspace a b num of
        Inl e \<Rightarrow> ([], Raised e) | Inr stps \<Rightarrow> Dscan_gen mot dets (NdArray stps) ret)"

definition LogDscan_gen ::
  "device \<Rightarrow> device list \<Rightarrow> real \<Rightarrow> real \<Rightarrow> int \<Rightarrow> reading \<Rightarrow> msg list \<times> outcome" where
  "LogDscan_gen mot dets a b num ret =
     (case np_logspace a b num of
        Inl e \<Rightarrow> ([], Raised e) | Inr stps \<Rightarrow> Dscan_gen mot dets (NdArray stps) ret)"

section \<open>The adaptive scan\<close>

record params =
  motor :: device
  detectors :: "device list"
  target_field :: string
  start :: real
  stop :: real
  min_step :: real
  max_step :: real
  target_delta :: real

record astate =
  next_pos :: real
  step :: real
  past_I :: "real option"
  cur_I :: "real option"

definition THRESHOLD :: real where
  "THRESHOLD = 0.8"

text \<open>\<^verbatim>\<open>np.clip(x, lo, hi)\<close> is \<^verbatim>\<open>minimum(maximum(x, lo), hi)\<close>.\<close>

definition np_clip :: "real \<Rightarrow> real \<Rightarrow> real \<Rightarrow> real" where
  "np_clip x lo hi = min (max x lo) hi"

text \<open>
  The loop \<^verbatim>\<open>for det in dets: cur_det = yield Msg('read', det); if target_field in
  cur_det: cur_I = cur_det[target_field]['value']\<close>, over the readings sent back.
\<close>

fun read_dets :: "string \<Rightarrow> reading list \<Rightarrow> real option \<Rightarrow> real option" where
  "read_dets tf [] c = c"
| "read_dets tf (r # rs) c =
     read_dets tf rs (case map_of r tf of Some v \<Rightarrow> Some (val v) | None \<Rightarrow> c)"

text \<open>Lines 360 to 367: the step proposed from the last two intensities.\<close>

definition new_step :: "params \<Rightarrow> real \<Rightarrow> real \<Rightarrow> real \<Rightarrow> real" where
  "new_step P st c p =
     (let dI = \<bar>c - p\<bar>;
          slope = dI / st
      in if slope \<noteq> 0 then np_clip (target_delta P / slope) (min_step P) (max_step P)
         else min (st * 1.1) (max_step P))"

text \<open>
  Lines 354 to 376: what one pass of the loop does to the state after the detectors
  were read. With \<^verbatim>\<open>step = 0\<close> the source divides a numpy float by zero and goes on
  with \<^verbatim>\<open>inf\<close> or \<^verbatim>\<open>nan\<close>; the model stops there with \<open>NonFinite\<close>. Subtracting from
  \<^verbatim>\<open>None\<close> raises \<^verbatim>\<open>TypeError\<close>.
\<close>

definition adaptive_update :: "params \<Rightarrow> astate \<Rightarrow> error + astate" where
  "adaptive_update P s =
     (case past_I s of
        None \<Rightarrow> Inr (s\<lparr>next_pos := next_pos s + step s, past_I := cur_I s\<rparr>)
      | Some p \<Rightarrow>
          (case cur_I s of
             None \<Rightarrow> Inl TypeError
           | Some c \<Rightarrow>
               if step s = 0 then Inl NonFinite
               else
                 let n = new_step P (step s) c p in
                 if n < step s * THRESHOLD
                 then Inr (s\<lparr>next_pos := next_pos s - step s + n, step := n\<rparr>)
                 else
                   let st = 0.2 * n + 0.8 * step s in
                   Inr (s\<lparr>next_pos := next_pos s + st, step := st, past_I := Some c\<rparr>)))"

definition iter_msgs :: "params \<Rightarrow> real \<Rightarrow> msg list" where
  "iter_msgs P pos =
     [Msg Checkpoint None [] None,
      Msg Set (Some (motor P)) [Num pos] None,
      Msg Wait None [Str ''A''] None,
      Msg Create None [] None,
      Msg Read (Some (motor P)) [] None]
     @ map (\<lambda>det. Msg Trigger (Some det) [] (Some ''B'')) (detectors P)
     @ map (\<lambda>det. Msg Wait None [Str ''B''] None) (detectors P)
     @ map (\<lambda>det. Msg Read (Some det) [] None) (detectors P)
     @ [Msg Save None [] None]"

text \<open>
  The interpreter answers every \<^verbatim>\<open>read\<close>. \<open>resp i k\<close> is the reading sent back in pass
  \<open>i\<close> of the loop at the read of the \<open>k\<close>-th detector.
\<close>

type_synonym responses = "nat \<Rightarrow> nat \<Rightarrow> reading"

definition readings :: "params \<Rightarrow> responses \<Rightarrow> nat \<Rightarrow> reading list" where
  "readings P resp i = map (resp i) [0..<length (detectors P)]"

text \<open>One pass of the loop body on the state: the reads, then lines 354 to 376.\<close>

definition adaptive_iter :: "params \<Rightarrow> reading list \<Rightarrow> astate \<Rightarrow> error + astate" where
  "adaptive_iter P rs s =
     adaptive_update P (s\<lparr>cur_I := read_dets (target_field P) rs (cur_I s)\<rparr>)"

text \<open>
  The loop \<^verbatim>\<open>while next_pos < stop\<close>: \<open>acc\<close> are the messages yielded so far, \<open>stp\<close> is
  \<^verbatim>\<open>stop + offset\<close>, \<open>i\<close> counts the passes. The loop may run forever: then the value
  is \<open>None\<close>.
\<close>

partial_function (option) adaptive_while ::
  "params \<Rightarrow> real \<Rightarrow> responses \<Rightarrow> nat \<Rightarrow> msg list \<Rightarrow> astate
     \<Rightarrow> (msg list \<times> outcome) option" where
  "adaptive_while P stp resp i acc s =
     (if next_pos s < stp then
        (case adaptive_iter P (readings P resp i) s of
           Inl e \<Rightarrow> Some (acc @ iter_msgs P (next_pos s), Raised e)
         | Inr s' \<Rightarrow> adaptive_while P stp resp (Suc i) (acc @ iter_msgs P (next_pos s)) s')
      else Some (acc @ map (\<lambda>d. Msg Deconfigure (Some d) [] None) (detectors P), Finished))"

definition init_state :: "params \<Rightarrow> real \<Rightarrow> astate" where
  "init_state P offset =
     \<lparr>next_pos = start P + offset, step = (max_step P - min_step P) / 2,
      past_I = None, cur_I = None\<rparr>"

definition AdaptiveScan_gen ::
  "params \<Rightarrow> real \<Rightarrow> responses \<Rightarrow> (msg list \<times> outcome) option" where
  "AdaptiveScan_gen P offset resp =
     adaptive_while P (stop P + offset) resp 0
       (map (\<lambda>d. Msg Configure (Some d) [] None) (detectors P)) (init_state P offset)"

text \<open>\<^verbatim>\<open>AdaptiveAscan._gen\<close>: the offset is 0.\<close>

definition AdaptiveAscan_gen :: "params \<Rightarrow> responses \<Rightarrow> (msg list \<times> outcome) option" where
  "AdaptiveAscan_gen P resp = AdaptiveScan_gen P 0 resp"

text \<open>\<^verbatim>\<open>AdaptiveDscan._gen\<close>: the offset is the value the motor reads at first.\<close>

definition AdaptiveDscan_gen ::
  "params \<Rightarrow> reading \<Rightarrow> responses \<Rightarrow> (msg list \<times> outcome) option" where
  "AdaptiveDscan_gen P ret resp =
     (case current_value ret of
        Inl e \<Rightarrow> Some ([Msg Read (Some (motor P)) [] None], Raised e)
      | Inr v \<Rightarrow>
          map_option (\<lambda>(ms, out). (Msg Read (Some (motor P)) [] None # ms, out))
            (AdaptiveScan_gen P (val v) resp))"

text \<open>
  The state at the head of the loop after \<open>k\<close> passes: \<open>None\<close> when the loop has ended
  before, \<open>Inl\<close> when a pass has failed.
\<close>

fun state_after :: "params \<Rightarrow> real \<Rightarrow> responses \<Rightarrow> nat \<Rightarrow> (error + astate) option" where
  "state_after P offset resp 0 = Some (Inr (init_state P offset))"
| "state_after P offset resp (Suc k) =
     (case state_after P offset resp k of
        Some (Inr s) \<Rightarrow>
          if next_pos s < stop P + offset
          then Some (adaptive_iter P (readings P resp k) s) else None
      | _ \<Rightarrow> None)"

section \<open>The label index of \<^verbatim>\<open>magics.py\<close>\<close>

text \<open>
  What \<^verbatim>\<open>get_labeled_devices\<close> looks at in an object of a namespace: whether it is a
  class (\<^verbatim>\<open>isinstance(dev, type)\<close>), its \<^verbatim>\<open>component_names\<close> (empty when it has none),
  its \<^verbatim>\<open>_ophyd_labels_\<close> when it has the attribute, and its \<^verbatim>\<open>__dict__\<close>. A namespace is
  a dict from names to objects, in the dict's order.
\<close>

datatype dev =
  Dev (is_class: bool) (component_names: "string list") (ophyd_labels: "string list option")
    (attrs: "(string \<times> dev) list")

type_synonym namespace = "(string \<times> dev) list"

type_synonym label_index = "(string \<times> (string \<times> dev) list) list"

definition is_parent :: "dev \<Rightarrow> bool" where
  "is_parent d = (is_class d \<and> length (component_names d) > 0)"

definition startswith_underscore :: "string \<Rightarrow> bool" where
  "startswith_underscore key = (case key of [] \<Rightarrow> False | c # _ \<Rightarrow> c = CHR ''_'')"

text \<open>\<^verbatim>\<open>obj_list[label].append((key, obj))\<close> on the \<^verbatim>\<open>defaultdict(list)\<close>.\<close>

definition append_label :: "label_index \<Rightarrow> string \<Rightarrow> string \<times> dev \<Rightarrow> label_index" where
  "append_label acc label x =
     AList.update label ((case map_of acc label of None \<Rightarrow> [] | Some xs \<Rightarrow> xs) @ [x]) acc"

text \<open>\<^verbatim>\<open>obj_list.update(other)\<close>: every key of \<^verbatim>\<open>other\<close> gets the value of \<^verbatim>\<open>other\<close>.\<close>

definition dict_update :: "label_index \<Rightarrow> label_index \<Rightarrow> label_index" where
  "dict_update acc other = fold (\<lambda>(k, v) a. AList.update k v a) other acc"

text \<open>
  \<^verbatim>\<open>get_labeled_devices(user_ns, maxdepth)\<close> with a namespace given: the index and the
  warnings it has issued.
\<close>

function get_labeled_devices :: "namespace \<Rightarrow> int \<Rightarrow> label_index \<times> string list" where
  "get_labeled_devices user_ns maxdepth =
     (if maxdepth \<le> 0 then ([], [''Recursion limit exceeded''])
      else
        fold (\<lambda>(key, obj) (obj_list, warns).
                if \<not> startswith_underscore key then
                  (if is_parent obj then
                     (case get_labeled_devices (attrs obj) (maxdepth - 1) of
                        (sub, w) \<Rightarrow> (dict_update obj_list sub, warns @ w))
                   else
                     (case ophyd_labels obj of
                        Some labels \<Rightarrow>
                          (fold (\<lambda>label a. append_label a label (key, obj)) labels obj_list,
                           warns)
                      | None \<Rightarrow> (obj_list, warns)))
                else (obj_list, warns))
          user_ns ([], []))"
  by pat_completeness auto
termination
  by (relation "measure (\<lambda>(ns, d). nat d)") auto

section \<open>The positioner report of \<^verbatim>\<open>magics.py\<close>\<close>

text \<open>
  A positioner, as \<^verbatim>\<open>_print_positioners\<close> sees it: every attribute it reads either gives
  a value or raises an exception, of which only the name of the class is used.
  \<open>ident\<close> is the identity of the object, \<open>user_offset\<close> stands for
  \<^verbatim>\<open>p.user_offset.get()\<close>.
\<close>

record positioner =
  ident :: nat
  pname :: string
  position :: "string + real"
  precision :: "string + int"
  limits :: "string + real \<times> real"
  user_offset :: "string + real"

datatype cell = Number real | Text string

text \<open>
  \<^verbatim>\<open>np.round(x, decimals=d)\<close> of numpy in exact arithmetic: scale by a power of ten, round
  to the nearest integer with ties to the even one, scale back.
\<close>

definition round_half_even :: "real \<Rightarrow> real" where
  "round_half_even x =
     (let f = \<lfloor>x\<rfloor>; r = x - of_int f in
      if r < 1 / 2 then of_int f
      else if 1 / 2 < r then of_int (f + 1)
      else if even f then of_int f else of_int (f + 1))"

definition np_round :: "real \<Rightarrow> int \<Rightarrow> real" where
  "np_round x d =
     (if 0 \<le> d then round_half_even (x * 10 ^ nat d) / 10 ^ nat d
      else round_half_even (x / 10 ^ nat (- d)) * 10 ^ nat (- d))"

record report_row =
  r_name :: string
  r_value :: cell
  r_low_limit :: cell
  r_high_limit :: cell
  r_offset :: cell

text \<open>Lines 246 to 271: the row of one positioner.\<close>

definition positioner_row :: "int \<Rightarrow> positioner \<Rightarrow> report_row" where
  "positioner_row dflt p =
     (case position p of
        Inr v \<Rightarrow>
          (let prec = (case precision p of Inr pr \<Rightarrow> pr | Inl exc \<Rightarrow> dflt);
               lims = (case limits p of
                         Inl exc \<Rightarrow> (Text exc, Text exc)
                       | Inr (lo, hi) \<Rightarrow> (Number (np_round lo prec), Number (np_round hi prec)));
               offset = (case user_offset p of
                           Inl exc \<Rightarrow> Text exc
                         | Inr off \<Rightarrow> Number (np_round off prec))
           in \<lparr>r_name = pname p, r_value = Number (np_round v prec),
               r_low_limit = fst lims, r_high_limit = snd lims, r_offset = offset\<rparr>)
      | Inl exc \<Rightarrow>
          \<lparr>r_name = pname p, r_value = Text exc,
           r_low_limit = Text [], r_high_limit = Text [], r_offset = Text []\<rparr>)"

text \<open>
  \<^verbatim>\<open>'{: <30} {: <11} {: <11} {: <11} {: <11}'.format(...)\<close> behind the prefix. How Python
  prints a number is the argument \<open>shw\<close>.
\<close>

definition ljust :: "nat \<Rightarrow> string \<Rightarrow> string" where
  "ljust n s = s @ replicate (n - length s) CHR '' ''"

fun cell_text :: "(real \<Rightarrow> string) \<Rightarrow> cell \<Rightarrow> string" where
  "cell_text shw (Number x) = shw x"
| "cell_text shw (Text t) = t"

definition LINE_FMT :: "string \<Rightarrow> string list \<Rightarrow> string" where
  "LINE_FMT prefix cols =
     prefix @ ljust 30 (cols ! 0) @ '' '' @ ljust 11 (cols ! 1) @ '' '' @ ljust 11 (cols ! 2)
     @ '' '' @ ljust 11 (cols ! 3) @ '' '' @ ljust 11 (cols ! 4)"

definition row_line :: "(real \<Rightarrow> string) \<Rightarrow> string \<Rightarrow> report_row \<Rightarrow> string" where
  "row_line shw prefix r =
     LINE_FMT prefix [r_name r, cell_text shw (r_value r), cell_text shw (r_low_limit r),
       cell_text shw (r_high_limit r), cell_text shw (r_offset r)]"

text \<open>
  \<^verbatim>\<open>_print_positioners\<close>: the lines it prints. \<^verbatim>\<open>sorted(set(positioners), key=...)\<close> drops
  the repeated objects and sorts by name; the order Python's set gives to positioners of
  one name is not modelled. \<open>srt\<close> is the argument \<^verbatim>\<open>sort\<close>, \<open>dflt\<close> the argument
  \<^verbatim>\<open>precision\<close>.
\<close>

definition print_positioners ::
  "(real \<Rightarrow> string) \<Rightarrow> positioner list \<Rightarrow> bool \<Rightarrow> int \<Rightarrow> string \<Rightarrow> string list" where
  "print_positioners shw positioners srt dflt prefix =
     (let ps = (if srt then sort_key pname (remdups positioners) else positioners) in
      LINE_FMT prefix [''Positioner'', ''Value'', ''Low Limit'', ''High Limit'', ''Offset'']
      # map (\<lambda>p. row_line shw prefix (positioner_row dflt p)) ps)"

section \<open>The ordering contract of block groups\<close>

text \<open>
  In the messages after a \<^verbatim>\<open>set\<close> or \<^verbatim>\<open>trigger\<close> of device \<open>d\<close> under the group \<open>g\<close>: a
  \<^verbatim>\<open>wait\<close> on \<open>g\<close> comes, and no \<^verbatim>\<open>read\<close> of \<open>d\<close> comes before it.
\<close>

fun wait_before_read :: "string \<Rightarrow> device \<Rightarrow> msg list \<Rightarrow> bool" where
  "wait_before_read g d [] = False"
| "wait_before_read g d (m # ms) =
     (if command m = Wait \<and> args m = [Str g] then True
      else if command m = Read \<and> obj m = Some d then False
      else wait_before_read g d ms)"

text \<open>
  Every \<^verbatim>\<open>set\<close> and \<^verbatim>\<open>trigger\<close> of the sequence has a device and a group, and is followed
  by a \<^verbatim>\<open>wait\<close> on the group before the device is read.
\<close>

fun grouped :: "msg list \<Rightarrow> bool" where
  "grouped [] = True"
| "grouped (m # ms) =
     ((if command m = Set \<or> command m = Trigger
       then (case block_group m of
               None \<Rightarrow> False
             | Some g \<Rightarrow> (case obj m of None \<Rightarrow> False | Some d \<Rightarrow> wait_before_read g d ms))
       else True)
      \<and> grouped ms)"

text \<open>
  The smallest step that the adaptive scan takes when \<open>0 < min_step < max_step\<close>: the
  first step or \<open>min_step\<close>.
\<close>

definition step_floor :: "params \<Rightarrow> real" where
  "step_floor P = min ((max_step P - min_step P) / 2) (min_step P)"

section \<open>Concrete inputs\<close>

text \<open>
  A scan from 0 to 10 with steps between 1 and 2, one detector, and a reading of the
  target field that jumps from 0 to 10 after the first pass.
\<close>

definition P_narrow :: params where
  "P_narrow = \<lparr>motor = ''m'', detectors = [''det''], target_field = ''I'', start = 0,
     stop = 10, min_step = 1, max_step = 2, target_delta = 1\<rparr>"

definition resp_jump :: responses where
  "resp_jump i k = [(''I'', PyNum (if i = 0 then 0 else 10))]"

text \<open>The same with steps between 1 and 10, and with a scan that ends after one pass.\<close>

definition P_wide :: params where
  "P_wide = \<lparr>motor = ''m'', detectors = [''det''], target_field = ''I'', start = 0,
     stop = 10, min_step = 1, max_step = 10, target_delta = 1\<rparr>"

definition P_short :: params where
  "P_short = \<lparr>motor = ''m'', detectors = [''det''], target_field = ''I'', start = 0,
     stop = 4, min_step = 1, max_step = 10, target_delta = 1\<rparr>"

text \<open>
  Equal smallest and largest steps, and a detector whose readings do not have the target
  field.
\<close>

definition P_stuck :: params where
  "P_stuck = \<lparr>motor = ''m'', detectors = [''det''], target_field = ''I'', start = 0,
     stop = 1, min_step = 1, max_step = 1, target_delta = 1\<rparr>"

definition resp_other :: responses where
  "resp_other i k = [(''J'', PyNum 0)]"

text \<open>A detector that gives another field in the first pass and the target field later.\<close>

definition resp_late :: responses where
  "resp_late i k = (if i = 0 then [(''J'', PyNum 0)] else [(''I'', PyNum 10)])"

text \<open>
  A device with two labelled components, as an instance and as a class, and a positioner
  that cannot be reached while its limits and offset are known.
\<close>

definition motor_x :: dev where
  "motor_x = Dev False [] (Some [''motors'']) []"

definition motor_y :: dev where
  "motor_y = Dev False [] (Some [''motors'']) []"

definition stage :: dev where
  "stage = Dev False [''x'', ''y''] (Some [''stages'']) [(''x'', motor_x), (''y'', motor_y)]"

definition stage_class :: dev where
  "stage_class = Dev True [''x'', ''y''] (Some [''stages'']) [(''x'', motor_x), (''y'', motor_y)]"

definition p_down :: positioner where
  "p_down = \<lparr>ident = 0, pname = ''th'', position = Inl ''DisconnectedError'',
     precision = Inr 3, limits = Inr (0, 10), user_offset = Inr 0\<rparr>"

definition p_nolimits :: positioner where
  "p_nolimits = \<lparr>ident = 1, pname = ''tth'', position = Inr 1, precision = Inr 3,
     limits = Inl ''AttributeError'', user_offset = Inr 0\<rparr>"

section \<open>Properties of the adaptive scan\<close>

lemma read_dets_Some: "c \<noteq> None \<Longrightarrow> read_dets tf rs c \<noteq> None"
  by (induction rs arbitrary: c) (auto split: option.splits)

lemma adaptive_iter_cur:
  "adaptive_iter P rs s = Inr s' \<Longrightarrow> (past_I s \<noteq> None \<longrightarrow> cur_I s \<noteq> None)
     \<Longrightarrow> past_I s' \<noteq> None \<longrightarrow> cur_I s' \<noteq> None"
  by (auto simp: adaptive_iter_def adaptive_update_def Let_def read_dets_Some
      split: option.splits if_splits)

text \<open>Once the reference intensity is set, the current one is set too.\<close>

lemma state_after_cur:
  "state_after P off resp k = Some (Inr s) \<Longrightarrow> past_I s \<noteq> None \<longrightarrow> cur_I s \<noteq> None"
proof (induction k arbitrary: s)
  case 0
  then show ?case by (auto simp: init_state_def)
next
  case (Suc k)
  then show ?case
    by (auto split: option.splits sum.splits if_splits dest: adaptive_iter_cur)
qed

text \<open>
  The states of \<open>state_after\<close> are the states in which the loop of the scan is entered:
  the scan is the loop continued from pass \<open>k\<close> in that state, with the messages
  yielded until then.
\<close>

lemma state_after_loop:
  "state_after P off resp k = Some (Inr s)
     \<Longrightarrow> \<exists>acc. AdaptiveScan_gen P off resp = adaptive_while P (stop P + off) resp k acc s"
proof (induction k arbitrary: s)
  case 0
  then show ?case by (auto simp: AdaptiveScan_gen_def)
next
  case (Suc k)
  from Suc.prems obtain s0 where
    s0: "state_after P off resp k = Some (Inr s0)"
    and lt: "next_pos s0 < stop P + off"
    and it: "adaptive_iter P (readings P resp k) s0 = Inr s"
    by (auto split: option.splits sum.splits if_splits)
  from Suc.IH[OF s0] obtain acc where
    "AdaptiveScan_gen P off resp = adaptive_while P (stop P + off) resp k acc s0"
    by blast
  also have "\<dots> = adaptive_while P (stop P + off) resp (Suc k)
                      (acc @ iter_msgs P (next_pos s0)) s"
    using lt it by (subst adaptive_while.simps) simp
  finally show ?case by blast
qed

text \<open>
  C1, at the input \<open>P_narrow\<close> with the readings \<open>resp_jump\<close>: the first step is
  \<open>(2 - 1) / 2 = 0.5\<close>; in the second pass the proposed step is clipped to \<open>min_step = 1\<close>,
  which is no backtrack, and the blending gives \<open>0.2 * 1 + 0.8 * 0.5 = 0.6\<close>, below
  \<open>min_step\<close>.
\<close>

theorem step_below_min_step:
  "map_option (map_sum id step) (state_after P_narrow 0 resp_jump 2) = Some (Inr (3 / 5))
   \<and> 3 / 5 < min_step P_narrow"
  by (simp add: numeral_2_eq_2 P_narrow_def resp_jump_def init_state_def adaptive_iter_def
      adaptive_update_def readings_def new_step_def np_clip_def THRESHOLD_def Let_def)

text \<open>
  C2: in a pass of the loop that starts with a positive step and with the reference
  intensity \<open>past_I\<close> set, the pass does not fail, \<open>next_pos\<close> decreases if and only if
  the proposed step is below \<open>0.8 * step\<close>; then the step becomes the proposed one and
  \<open>past_I\<close> stays, and otherwise \<open>past_I\<close> becomes the current intensity, the step becomes
  \<open>0.2 * new_step + 0.8 * step\<close> and \<open>next_pos\<close> advances by the new step. The reference
  is set from the first pass on in which a detector has given the target field.
\<close>

theorem backtrack_iff:
  assumes run: "state_after P off resp i = Some (Inr s)"
    and pos: "0 < step s" and past: "past_I s = Some p"
  shows "\<exists>c s'. read_dets (target_field P) (readings P resp i) (cur_I s) = Some c
           \<and> adaptive_iter P (readings P resp i) s = Inr s'
           \<and> (next_pos s' < next_pos s \<longleftrightarrow> new_step P (step s) c p < step s * 0.8)
           \<and> (if new_step P (step s) c p < step s * 0.8
               then step s' = new_step P (step s) c p \<and> past_I s' = Some p
                    \<and> next_pos s' = next_pos s - step s + step s'
               else past_I s' = Some c
                    \<and> step s' = 0.2 * new_step P (step s) c p + 0.8 * step s
                    \<and> next_pos s' = next_pos s + step s')"
proof -
  from state_after_cur[OF run] past have "cur_I s \<noteq> None" by simp
  then obtain c where c: "read_dets (target_field P) (readings P resp i) (cur_I s) = Some c"
    using read_dets_Some by fastforce
  let ?n = "new_step P (step s) c p"
  show ?thesis
  proof (cases "?n < step s * 0.8")
    case True
    with c pos past show ?thesis
      by (simp add: adaptive_iter_def adaptive_update_def THRESHOLD_def Let_def)
  next
    case False
    with c pos past show ?thesis
      by (simp add: adaptive_iter_def adaptive_update_def THRESHOLD_def Let_def)
  qed
qed

theorem backtrack_iff_witness:
  "state_after P_wide 0 resp_jump 1
     = Some (Inr \<lparr>next_pos = 9 / 2, step = 9 / 2, past_I = Some 0, cur_I = Some 0\<rparr>)
   \<and> new_step P_wide (9 / 2) 10 0 = 1
   \<and> (\<exists>s'. adaptive_iter P_wide (readings P_wide resp_jump 1)
              \<lparr>next_pos = 9 / 2, step = 9 / 2, past_I = Some 0, cur_I = Some 0\<rparr> = Inr s'
          \<and> next_pos s' < 9 / 2 \<and> step s' = 1 \<and> past_I s' = Some 0 \<and> next_pos s' = 1)"
proof -
  let ?s = "\<lparr>next_pos = 9 / 2, step = 9 / 2, past_I = Some 0, cur_I = Some (0::real)\<rparr>"
  have run: "state_after P_wide 0 resp_jump 1 = Some (Inr ?s)"
    by (simp add: P_wide_def resp_jump_def init_state_def adaptive_iter_def
        adaptive_update_def readings_def)
  have n: "new_step P_wide (9 / 2) 10 0 = 1"
    by (simp add: P_wide_def new_step_def np_clip_def Let_def)
  have c: "read_dets (target_field P_wide) (readings P_wide resp_jump 1) (cur_I ?s) = Some 10"
    by (simp add: P_wide_def resp_jump_def readings_def)
  from backtrack_iff[OF run, of 0] obtain c' s' where
    c': "read_dets (target_field P_wide) (readings P_wide resp_jump 1) (cur_I ?s) = Some c'"
    and it: "adaptive_iter P_wide (readings P_wide resp_jump 1) ?s = Inr s'"
    and iff: "next_pos s' < next_pos ?s \<longleftrightarrow> new_step P_wide (step ?s) c' 0 < step ?s * 0.8"
    and br: "if new_step P_wide (step ?s) c' 0 < step ?s * 0.8
               then step s' = new_step P_wide (step ?s) c' 0 \<and> past_I s' = Some 0
                    \<and> next_pos s' = next_pos ?s - step ?s + step s'
               else past_I s' = Some c'
                    \<and> step s' = 0.2 * new_step P_wide (step ?s) c' 0 + 0.8 * step ?s
                    \<and> next_pos s' = next_pos ?s + step s'"
    by auto
  from c c' have "c' = 10" by simp
  with iff br n have "next_pos s' < 9 / 2 \<and> step s' = 1 \<and> past_I s' = Some 0 \<and> next_pos s' = 1"
    by simp
  with run n it show ?thesis by blast
qed

text \<open>
  A scan whose first reading has not the target field, from \<open>P_wide\<close> and from
  \<open>P_narrow\<close>: the second pass starts with a positive step and without a reference, so
  it takes the branch of the first pass again. No step is proposed; \<open>past_I\<close> is set,
  \<open>next_pos\<close> advances and the step stays as it is. From \<open>P_narrow\<close> the step 1/2 that
  stays is not \<open>0.2 * new_step + 0.8 * step\<close> for any proposed step.
\<close>

lemma new_step_narrow: "11 / 20 \<le> new_step P_narrow (1 / 2) c p"
proof (cases "\<bar>c - p\<bar> / (1 / 2) \<noteq> 0")
  case True
  then show ?thesis by (simp add: new_step_def np_clip_def P_narrow_def Let_def)
next
  case False
  then show ?thesis by (simp add: new_step_def P_narrow_def Let_def)
qed

theorem first_branch_taken_again:
  "state_after P_wide 0 resp_late 1
     = Some (Inr \<lparr>next_pos = 9 / 2, step = 9 / 2, past_I = None, cur_I = None\<rparr>)
   \<and> state_after P_wide 0 resp_late 2
     = Some (Inr \<lparr>next_pos = 9, step = 9 / 2, past_I = Some 10, cur_I = Some 10\<rparr>)
   \<and> state_after P_narrow 0 resp_late 1
     = Some (Inr \<lparr>next_pos = 1 / 2, step = 1 / 2, past_I = None, cur_I = None\<rparr>)
   \<and> state_after P_narrow 0 resp_late 2
     = Some (Inr \<lparr>next_pos = 1, step = 1 / 2, past_I = Some 10, cur_I = Some 10\<rparr>)
   \<and> \<not> (\<exists>c p. 0.2 * new_step P_narrow (1 / 2) c p + 0.8 * (1 / 2) = 1 / 2)"
proof -
  have w1: "state_after P_wide 0 resp_late 1
     = Some (Inr \<lparr>next_pos = 9 / 2, step = 9 / 2, past_I = None, cur_I = None\<rparr>)"
    by (simp add: P_wide_def resp_late_def init_state_def adaptive_iter_def
        adaptive_update_def readings_def)
  have w2: "state_after P_wide 0 resp_late 2
     = Some (Inr \<lparr>next_pos = 9, step = 9 / 2, past_I = Some 10, cur_I = Some 10\<rparr>)"
    by (simp add: numeral_2_eq_2 P_wide_def resp_late_def init_state_def adaptive_iter_def
        adaptive_update_def readings_def)
  have n1: "state_after P_narrow 0 resp_late 1
     = Some (Inr \<lparr>next_pos = 1 / 2, step = 1 / 2, past_I = None, cur_I = None\<rparr>)"
    by (simp add: P_narrow_def resp_late_def init_state_def adaptive_iter_def
        adaptive_update_def readings_def)
  have n2: "state_after P_narrow 0 resp_late 2
     = Some (Inr \<lparr>next_pos = 1, step = 1 / 2, past_I = Some 10, cur_I = Some 10\<rparr>)"
    by (simp add: numeral_2_eq_2 P_narrow_def resp_late_def init_state_def adaptive_iter_def
        adaptive_update_def readings_def)
  have no: "\<not> (\<exists>c p. 0.2 * new_step P_narrow (1 / 2) c p + 0.8 * (1 / 2) = 1 / 2)"
  proof
    assume "\<exists>c p. 0.2 * new_step P_narrow (1 / 2) c p + 0.8 * (1 / 2) = 1 / 2"
    then obtain c p where e: "0.2 * new_step P_narrow (1 / 2) c p + 0.8 * (1 / 2) = 1 / 2"
      by blast
    from new_step_narrow[of c p] e show False by simp
  qed
  from w1 w2 n1 n2 no show ?thesis by blast
qed

lemma read_dets_snoc:
  "read_dets tf (rs @ [r]) c =
     (case map_of r tf of Some v \<Rightarrow> Some (val v) | None \<Rightarrow> read_dets tf rs c)"
  by (induction rs arbitrary: c) (auto split: option.splits)

lemma read_dets_last:
  "read_dets tf rs c =
     (case rev (filter (\<lambda>r. map_of r tf \<noteq> None) rs) of
        [] \<Rightarrow> c
      | r # _ \<Rightarrow> map_option val (map_of r tf))"
  by (induction rs arbitrary: c rule: rev_induct)
     (auto simp: read_dets_snoc split: option.splits list.splits)

text \<open>The reads of a pass are all that changes \<open>cur_I\<close>; a pass with a reference runs.\<close>

lemma adaptive_iter_cur_I:
  "adaptive_iter P rs s = Inr s' \<Longrightarrow> cur_I s' = read_dets (target_field P) rs (cur_I s)"
  by (auto simp: adaptive_iter_def adaptive_update_def Let_def split: option.splits if_splits)

lemma adaptive_iter_runs:
  assumes "past_I s = Some p" "cur_I s \<noteq> None" "step s \<noteq> 0"
  shows "\<exists>s'. adaptive_iter P rs s = Inr s'"
proof -
  from assms(2) obtain c where "read_dets (target_field P) rs (cur_I s) = Some c"
    using read_dets_Some by fastforce
  with assms(1,3) show ?thesis
    by (simp add: adaptive_iter_def adaptive_update_def Let_def)
qed

text \<open>
  C10: after a pass of the loop, \<open>cur_I\<close> is the value of the target field in the last
  reading of the pass that has it, and the \<open>cur_I\<close> of before the pass when no reading
  has it; so it is for the helper \<open>read_dets\<close>, for the loop body \<open>adaptive_iter\<close> and
  between two successive states of the loop. A pass that starts without a reference does
  not fail: \<open>past_I\<close> takes the \<open>cur_I\<close> of after the reads, \<open>next_pos\<close> advances by the
  step and the step stays. In the first pass with no such reading both \<open>cur_I\<close> and
  \<open>past_I\<close> are \<open>None\<close> afterwards.
\<close>

theorem cur_I_from_last_reading:
  "read_dets tf rs c =
     (case rev (filter (\<lambda>r. map_of r tf \<noteq> None) rs) of
        [] \<Rightarrow> c
      | r # _ \<Rightarrow> map_option val (map_of r tf))
   \<and> (\<forall>s'. adaptive_iter P rs' s = Inr s' \<longrightarrow>
         cur_I s' = (case rev (filter (\<lambda>r. map_of r (target_field P) \<noteq> None) rs') of
                       [] \<Rightarrow> cur_I s
                     | r # _ \<Rightarrow> map_option val (map_of r (target_field P))))
   \<and> (past_I s = None \<longrightarrow>
        (\<exists>s'. adaptive_iter P rs' s = Inr s'
           \<and> cur_I s' = (case rev (filter (\<lambda>r. map_of r (target_field P) \<noteq> None) rs') of
                           [] \<Rightarrow> cur_I s
                         | r # _ \<Rightarrow> map_option val (map_of r (target_field P)))
           \<and> past_I s' = cur_I s' \<and> next_pos s' = next_pos s + step s \<and> step s' = step s))
   \<and> (past_I s \<noteq> None \<and> cur_I s \<noteq> None \<and> step s \<noteq> 0 \<longrightarrow>
        (\<exists>s'. adaptive_iter P rs' s = Inr s'
           \<and> cur_I s' = (case rev (filter (\<lambda>r. map_of r (target_field P) \<noteq> None) rs') of
                           [] \<Rightarrow> cur_I s
                         | r # _ \<Rightarrow> map_option val (map_of r (target_field P)))))
   \<and> (\<forall>s0 s1. state_after P off resp k = Some (Inr s0)
                \<and> state_after P off resp (Suc k) = Some (Inr s1) \<longrightarrow>
         cur_I s1 = (case rev (filter (\<lambda>r. map_of r (target_field P) \<noteq> None)
                                 (readings P resp k)) of
                       [] \<Rightarrow> cur_I s0
                     | r # _ \<Rightarrow> map_option val (map_of r (target_field P))))
   \<and> (filter (\<lambda>r. map_of r (target_field P) \<noteq> None) rs' = [] \<and> past_I s = None \<longrightarrow>
        adaptive_iter P rs' s = Inr (s\<lparr>next_pos := next_pos s + step s, past_I := cur_I s\<rparr>))
   \<and> (filter (\<lambda>r. map_of r (target_field P) \<noteq> None) rs' = [] \<longrightarrow>
        (\<exists>s'. adaptive_iter P rs' (init_state P off) = Inr s' \<and> past_I s' = None
              \<and> cur_I s' = None \<and> next_pos s' = start P + off + (max_step P - min_step P) / 2))"
proof -
  let ?L = "\<lambda>rs c. case rev (filter (\<lambda>r. map_of r (target_field P) \<noteq> None) rs) of
                       [] \<Rightarrow> c
                     | r # _ \<Rightarrow> map_option val (map_of r (target_field P))"
  have L: "read_dets (target_field P) xs x = ?L xs x" for xs x
    by (rule read_dets_last)
  have A: "read_dets tf rs c =
     (case rev (filter (\<lambda>r. map_of r tf \<noteq> None) rs) of
        [] \<Rightarrow> c
      | r # _ \<Rightarrow> map_option val (map_of r tf))"
    by (rule read_dets_last)
  have B: "\<forall>s'. adaptive_iter P rs' s = Inr s' \<longrightarrow> cur_I s' = ?L rs' (cur_I s)"
    using adaptive_iter_cur_I[of P rs' s] L by simp
  have C: "past_I s = None \<longrightarrow>
        (\<exists>s'. adaptive_iter P rs' s = Inr s' \<and> cur_I s' = ?L rs' (cur_I s)
           \<and> past_I s' = cur_I s' \<and> next_pos s' = next_pos s + step s \<and> step s' = step s)"
  proof
    assume n: "past_I s = None"
    then have "adaptive_iter P rs' s
        = Inr (s\<lparr>cur_I := read_dets (target_field P) rs' (cur_I s),
                next_pos := next_pos s + step s,
                past_I := read_dets (target_field P) rs' (cur_I s)\<rparr>)"
      by (simp add: adaptive_iter_def adaptive_update_def)
    then show "\<exists>s'. adaptive_iter P rs' s = Inr s' \<and> cur_I s' = ?L rs' (cur_I s)
           \<and> past_I s' = cur_I s' \<and> next_pos s' = next_pos s + step s \<and> step s' = step s"
      using L by simp
  qed
  have D: "past_I s \<noteq> None \<and> cur_I s \<noteq> None \<and> step s \<noteq> 0 \<longrightarrow>
        (\<exists>s'. adaptive_iter P rs' s = Inr s' \<and> cur_I s' = ?L rs' (cur_I s))"
  proof
    assume a: "past_I s \<noteq> None \<and> cur_I s \<noteq> None \<and> step s \<noteq> 0"
    then obtain p where "past_I s = Some p" by auto
    from adaptive_iter_runs[OF this, of P rs'] a obtain s' where
      s': "adaptive_iter P rs' s = Inr s'" by blast
    with B show "\<exists>s'. adaptive_iter P rs' s = Inr s' \<and> cur_I s' = ?L rs' (cur_I s)" by blast
  qed
  have E: "\<forall>s0 s1. state_after P off resp k = Some (Inr s0)
                \<and> state_after P off resp (Suc k) = Some (Inr s1) \<longrightarrow>
         cur_I s1 = ?L (readings P resp k) (cur_I s0)"
  proof (intro allI impI)
    fix s0 s1
    assume a: "state_after P off resp k = Some (Inr s0)
                \<and> state_after P off resp (Suc k) = Some (Inr s1)"
    then have "adaptive_iter P (readings P resp k) s0 = Inr s1"
      by (auto split: if_splits)
    from adaptive_iter_cur_I[OF this] L show "cur_I s1 = ?L (readings P resp k) (cur_I s0)"
      by simp
  qed
  have a: "filter (\<lambda>r. map_of r (target_field P) \<noteq> None) rs' = [] \<Longrightarrow>
            read_dets (target_field P) rs' x = x" for x
    by (simp add: L)
  have F: "filter (\<lambda>r. map_of r (target_field P) \<noteq> None) rs' = [] \<and> past_I s = None \<longrightarrow>
        adaptive_iter P rs' s = Inr (s\<lparr>next_pos := next_pos s + step s, past_I := cur_I s\<rparr>)"
    by (auto simp: a adaptive_iter_def adaptive_update_def)
  have G: "filter (\<lambda>r. map_of r (target_field P) \<noteq> None) rs' = [] \<longrightarrow>
        (\<exists>s'. adaptive_iter P rs' (init_state P off) = Inr s' \<and> past_I s' = None
              \<and> cur_I s' = None \<and> next_pos s' = start P + off + (max_step P - min_step P) / 2)"
    by (auto simp: a adaptive_iter_def adaptive_update_def init_state_def)
  from A B C D E F G show ?thesis by blast
qed

theorem cur_I_from_last_reading_witness:
  "read_dets ''I'' [[(''I'', PyNum 1)], [(''J'', PyNum 2)], [(''I'', PyNum 3)], [(''K'', PyNum 4)]] None
     = Some 3
   \<and> read_dets ''I'' [[(''J'', PyNum 2)]] (Some 7) = Some 7
   \<and> (\<exists>s'. adaptive_iter P_wide
               [[(''I'', PyNum 1)], [(''J'', PyNum 2)], [(''I'', PyNum 3)], [(''K'', PyNum 4)]]
               (init_state P_wide 0) = Inr s'
           \<and> cur_I s' = Some 3 \<and> past_I s' = Some 3)
   \<and> (\<exists>s'. adaptive_iter P_wide [[(''J'', PyNum 2)]]
               \<lparr>next_pos = 9 / 2, step = 9 / 2, past_I = Some 0, cur_I = Some 0\<rparr> = Inr s'
           \<and> cur_I s' = Some 0)
   \<and> state_after P_wide 0 resp_jump 1
       = Some (Inr \<lparr>next_pos = 9 / 2, step = 9 / 2, past_I = Some 0, cur_I = Some 0\<rparr>)
   \<and> state_after P_wide 0 resp_jump (Suc 1)
       = Some (Inr \<lparr>next_pos = 1, step = 1, past_I = Some 0, cur_I = Some 10\<rparr>)
   \<and> filter (\<lambda>r. map_of r (target_field P_wide) \<noteq> None) [[(''J'', PyNum 2)]] = []
   \<and> (\<exists>s'. adaptive_iter P_wide [[(''J'', PyNum 2)]] (init_state P_wide 0) = Inr s'
           \<and> past_I s' = None \<and> cur_I s' = None \<and> next_pos s' = 9 / 2)"
proof -
  let ?R = "[[(''I'', PyNum 1)], [(''J'', PyNum 2)], [(''I'', PyNum 3)], [(''K'', PyNum (4::real))]]"
  let ?J = "[[(''J'', PyNum (2::real))]]"
  let ?S = "\<lparr>next_pos = 9 / 2, step = 9 / 2, past_I = Some 0, cur_I = Some (0::real)\<rparr>"
  have tfw: "target_field P_wide = ''I''" by (simp add: P_wide_def)
  have f: "filter (\<lambda>r. map_of r (target_field P_wide) \<noteq> None) ?J = []"
    by (simp add: tfw)
  have v: "start P_wide + 0 + (max_step P_wide - min_step P_wide) / 2 = 9 / 2"
    by (simp add: P_wide_def)
  have s1: "state_after P_wide 0 resp_jump 1 = Some (Inr ?S)"
    by (simp add: P_wide_def resp_jump_def init_state_def adaptive_iter_def
        adaptive_update_def readings_def)
  have s2: "state_after P_wide 0 resp_jump (Suc 1)
       = Some (Inr \<lparr>next_pos = 1, step = 1, past_I = Some 0, cur_I = Some 10\<rparr>)"
    by (simp add: P_wide_def resp_jump_def init_state_def adaptive_iter_def
        adaptive_update_def readings_def new_step_def np_clip_def THRESHOLD_def Let_def)
  note T = cur_I_from_last_reading[where tf = "''I''" and c = None and P = P_wide
        and rs = ?R and rs' = ?R and s = "init_state P_wide 0" and off = 0
        and resp = resp_jump and k = 1]
  note U = cur_I_from_last_reading[where tf = "''I''" and c = "Some 7" and P = P_wide
        and rs = ?J and rs' = ?J and s = ?S and off = 0 and resp = resp_jump and k = 1]
  have p1: "read_dets ''I'' ?R None = Some 3"
    by (simp add: T[THEN conjunct1])
  have p2: "read_dets ''I'' ?J (Some 7) = Some 7"
    by (simp add: U[THEN conjunct1])
  have "past_I (init_state P_wide 0) = None" by (simp add: init_state_def)
  with T[THEN conjunct2, THEN conjunct2, THEN conjunct1] obtain s' where
    "adaptive_iter P_wide ?R (init_state P_wide 0) = Inr s'"
    "cur_I s' = (case rev (filter (\<lambda>r. map_of r (target_field P_wide) \<noteq> None) ?R) of
                   [] \<Rightarrow> cur_I (init_state P_wide 0)
                 | r # _ \<Rightarrow> map_option val (map_of r (target_field P_wide)))"
    "past_I s' = cur_I s'"
    by blast
  then have p3: "\<exists>s'. adaptive_iter P_wide ?R (init_state P_wide 0) = Inr s'
           \<and> cur_I s' = Some 3 \<and> past_I s' = Some 3"
    by (simp add: tfw)
  have "past_I ?S \<noteq> None \<and> cur_I ?S \<noteq> None \<and> step ?S \<noteq> 0" by simp
  with U[THEN conjunct2, THEN conjunct2, THEN conjunct2, THEN conjunct1] obtain s'' where
    "adaptive_iter P_wide ?J ?S = Inr s''"
    "cur_I s'' = (case rev (filter (\<lambda>r. map_of r (target_field P_wide) \<noteq> None) ?J) of
                   [] \<Rightarrow> cur_I ?S
                 | r # _ \<Rightarrow> map_option val (map_of r (target_field P_wide)))"
    by blast
  then have p4: "\<exists>s'. adaptive_iter P_wide ?J ?S = Inr s' \<and> cur_I s' = Some 0"
    by (simp add: tfw)
  from U[THEN conjunct2, THEN conjunct2, THEN conjunct2, THEN conjunct2, THEN conjunct2,
      THEN conjunct2] f obtain s3 where
    "adaptive_iter P_wide ?J (init_state P_wide 0) = Inr s3"
    "past_I s3 = None" "cur_I s3 = None"
    "next_pos s3 = start P_wide + 0 + (max_step P_wide - min_step P_wide) / 2"
    by blast
  then have p5: "\<exists>s'. adaptive_iter P_wide ?J (init_state P_wide 0) = Inr s'
           \<and> past_I s' = None \<and> cur_I s' = None \<and> next_pos s' = 9 / 2"
    using v by auto
  from p1 p2 p3 p4 s1 s2 f p5 show ?thesis by blast
qed

section \<open>Termination of the adaptive scan\<close>

text \<open>
  The step proposed in a pass lies between any lower bound of the step and of \<open>min_step\<close>
  and \<open>max_step\<close>.
\<close>

lemma new_step_bounds:
  assumes "min_step P \<le> max_step P" "lo \<le> min_step P" "lo \<le> st" "0 < st"
  shows "lo \<le> new_step P st c p \<and> new_step P st c p \<le> max_step P"
proof (cases "\<bar>c - p\<bar> / st \<noteq> 0")
  case True
  then show ?thesis using assms by (simp add: new_step_def np_clip_def Let_def)
next
  case False
  have "st \<le> st * 1.1" using assms(4) by simp
  with False show ?thesis using assms
    by (auto simp add: new_step_def Let_def simp del: divide_eq_0_iff)
qed

lemma nat_ceiling_decr: "0 < x \<Longrightarrow> y \<le> x - 1 \<Longrightarrow> nat \<lceil>y\<rceil> < nat \<lceil>x::real\<rceil>"
proof -
  assume a: "0 < x" "y \<le> x - 1"
  have "\<lceil>y\<rceil> \<le> \<lceil>x - 1\<rceil>" using a(2) by (rule ceiling_mono)
  also have "\<dots> = \<lceil>x\<rceil> - 1" by simp
  finally have 1: "\<lceil>y\<rceil> \<le> \<lceil>x\<rceil> - 1" .
  have 2: "0 < \<lceil>x\<rceil>" using a(1) by simp
  from 1 2 show ?thesis by linarith
qed

text \<open>
  One pass from a state whose step is between a positive \<open>m\<close> and \<open>max_step\<close>: the pass
  does not fail, the step stays between the bounds, and either \<open>next_pos - step\<close> has
  grown by the old step (the pass went forward) or it is unchanged and the step has
  shrunk by a fifth of \<open>m\<close> at least (a backtrack).
\<close>

lemma adaptive_iter_progress:
  assumes ok: "0 < m" "m \<le> min_step P" "min_step P \<le> max_step P"
    and inv: "m \<le> step s" "step s \<le> max_step P" "past_I s \<noteq> None \<longrightarrow> cur_I s \<noteq> None"
  shows "\<exists>s'. adaptive_iter P rs s = Inr s' \<and> m \<le> step s' \<and> step s' \<le> max_step P
          \<and> (past_I s' \<noteq> None \<longrightarrow> cur_I s' \<noteq> None)
          \<and> (next_pos s' - step s' = next_pos s
              \<or> (next_pos s' - step s' = next_pos s - step s \<and> step s' \<le> step s - m / 5))"
proof (cases "past_I s")
  case None
  then show ?thesis using inv
    by (simp add: adaptive_iter_def adaptive_update_def)
next
  case (Some p)
  with inv have "cur_I s \<noteq> None" by simp
  then obtain c where c: "read_dets (target_field P) rs (cur_I s) = Some c"
    using read_dets_Some by fastforce
  have pos: "0 < step s" using ok inv by linarith
  let ?n = "new_step P (step s) c p"
  have nb: "m \<le> ?n" "?n \<le> max_step P"
    using new_step_bounds[OF ok(3) ok(2) inv(1) pos] by auto
  show ?thesis
  proof (cases "?n < step s * 0.8")
    case True
    have "?n \<le> step s - m / 5" using True inv(1) by linarith
    with True Some c pos nb show ?thesis
      by (simp add: adaptive_iter_def adaptive_update_def THRESHOLD_def Let_def)
  next
    case False
    have "m \<le> 0.2 * ?n + 0.8 * step s" "0.2 * ?n + 0.8 * step s \<le> max_step P"
      using nb inv by linarith+
    with False Some c pos show ?thesis
      by (simp add: adaptive_iter_def adaptive_update_def THRESHOLD_def Let_def)
  qed
qed

text \<open>
  The loop ends from every such state: the number of forward passes left and, under
  it, the number of backtracks left decrease.
\<close>

lemma adaptive_while_terminates:
  assumes ok: "0 < m" "m \<le> min_step P" "min_step P \<le> max_step P"
    and inv: "m \<le> step s" "step s \<le> max_step P" "past_I s \<noteq> None \<longrightarrow> cur_I s \<noteq> None"
  shows "\<exists>ms. adaptive_while P stp resp i acc s = Some (ms, Finished)"
  using inv
proof (induction s arbitrary: i acc
    rule: wf_induct_rule[where r = "measures [\<lambda>s. nat \<lceil>(stp - (next_pos s - step s)) / m\<rceil>,
                                             \<lambda>s. nat \<lceil>step s * 5 / m\<rceil>]", OF wf_measures])
  case (1 s)
  show ?case
  proof (cases "next_pos s < stp")
    case False
    then show ?thesis by (subst adaptive_while.simps) simp
  next
    case True
    from adaptive_iter_progress[OF ok "1.prems", of "readings P resp i"] obtain s' where
      it: "adaptive_iter P (readings P resp i) s = Inr s'"
      and inv': "m \<le> step s'" "step s' \<le> max_step P" "past_I s' \<noteq> None \<longrightarrow> cur_I s' \<noteq> None"
      and prog: "next_pos s' - step s' = next_pos s
              \<or> (next_pos s' - step s' = next_pos s - step s \<and> step s' \<le> step s - m / 5)"
      by blast
    have pos: "0 < step s" using ok "1.prems" by linarith
    have dec: "(s', s) \<in> measures [\<lambda>s. nat \<lceil>(stp - (next_pos s - step s)) / m\<rceil>,
                                   \<lambda>s. nat \<lceil>step s * 5 / m\<rceil>]"
      using prog
    proof
      assume f: "next_pos s' - step s' = next_pos s"
      have x: "0 < (stp - (next_pos s - step s)) / m" using True pos ok(1) by simp
      have "(stp - next_pos s) / m \<le> (stp - (next_pos s - step s)) / m - 1"
        using ok(1) "1.prems"(1) by (simp add: field_simps)
      from nat_ceiling_decr[OF x this] show ?thesis by (simp add: f)
    next
      assume b: "next_pos s' - step s' = next_pos s - step s \<and> step s' \<le> step s - m / 5"
      have x: "0 < step s * 5 / m" using pos ok(1) by simp
      have "step s' * 5 / m \<le> step s * 5 / m - 1"
        using ok(1) b by (simp add: field_simps)
      from nat_ceiling_decr[OF x this] show ?thesis using b by simp
    qed
    from "1.IH"[OF dec inv'] obtain ms where
      "adaptive_while P stp resp (Suc i) (acc @ iter_msgs P (next_pos s)) s' = Some (ms, Finished)"
      by blast
    with True it show ?thesis by (subst adaptive_while.simps) simp
  qed
qed

text \<open>
  With \<open>0 < min_step < max_step\<close> the adaptive scans end, whatever the detectors read,
  and never divide by a zero step.
\<close>

lemma adaptive_scan_terminates:
  assumes "0 < min_step P" "min_step P < max_step P"
  shows "\<exists>ms. AdaptiveScan_gen P off resp = Some (ms, Finished)"
proof -
  have m: "0 < step_floor P" "step_floor P \<le> min_step P"
    using assms by (auto simp: step_floor_def)
  have le: "min_step P \<le> max_step P" using assms by simp
  have "step (init_state P off) = (max_step P - min_step P) / 2"
    by (simp add: init_state_def)
  then have i1: "step_floor P \<le> step (init_state P off)"
    unfolding step_floor_def by (simp only: min.cobounded1)
  have i2: "step (init_state P off) \<le> max_step P"
    using assms by (simp add: init_state_def)
  have i3: "past_I (init_state P off) \<noteq> None \<longrightarrow> cur_I (init_state P off) \<noteq> None"
    by (simp add: init_state_def)
  from adaptive_while_terminates[OF m le i1 i2 i3] show ?thesis
    by (simp add: AdaptiveScan_gen_def)
qed

lemma adaptive_Dscan_terminates:
  assumes "0 < min_step P" "min_step P < max_step P"
  shows "\<exists>r. AdaptiveDscan_gen P ret resp = Some r"
proof (cases "current_value ret")
  case (Inl e)
  then show ?thesis by (simp add: AdaptiveDscan_gen_def)
next
  case (Inr v)
  from adaptive_scan_terminates[OF assms, of "val v" resp] Inr show ?thesis
    by (auto simp: AdaptiveDscan_gen_def)
qed

text \<open>
  When the first step is not below \<open>min_step\<close>, that is when \<open>3 * min_step \<le> max_step\<close>,
  the step is between \<open>min_step\<close> and \<open>max_step\<close> at the head of every pass.
\<close>

lemma step_stays_in_range:
  assumes "0 < min_step P" "3 * min_step P \<le> max_step P"
    and "state_after P off resp k = Some (Inr s)"
  shows "min_step P \<le> step s \<and> step s \<le> max_step P"
  using assms(3)
proof (induction k arbitrary: s)
  case 0
  then show ?case using assms(1,2) by (auto simp: init_state_def)
next
  case (Suc k)
  from Suc.prems obtain s0 where
    s0: "state_after P off resp k = Some (Inr s0)"
    and it: "adaptive_iter P (readings P resp k) s0 = Inr s"
    by (auto split: option.splits sum.splits if_splits)
  from Suc.IH[OF s0] have b: "min_step P \<le> step s0" "step s0 \<le> max_step P" by auto
  have le: "min_step P \<le> max_step P" using assms(1,2) by linarith
  from adaptive_iter_progress[OF assms(1) order_refl le b state_after_cur[OF s0],
      of "readings P resp k"] it
  show ?case by auto
qed

text \<open>
  With \<open>min_step = max_step\<close> the first step is zero. While no reading has the target
  field the loop takes its first branch, which adds the step to \<open>next_pos\<close>: the state
  does not change and the loop has no result.
\<close>

lemma stuck_forever:
  assumes "adaptive_while P stp resp i acc s = Some y"
  shows "\<not> (P = P_stuck \<and> resp = resp_other \<and> stp = 1 \<and> next_pos s = 0 \<and> step s = 0
            \<and> past_I s = None \<and> cur_I s = None)"
proof -
  let ?Q = "\<lambda>(x :: ((((params \<times> real) \<times> responses) \<times> nat) \<times> msg list) \<times> astate)
              (y :: msg list \<times> outcome).
              case x of (((((P, stp), resp), i), acc), s) \<Rightarrow>
                \<not> (P = P_stuck \<and> resp = resp_other \<and> stp = 1 \<and> next_pos s = 0 \<and> step s = 0
                   \<and> past_I s = None \<and> cur_I s = None)"
  have "?Q (((((P, stp), resp), i), acc), s) y"
  proof (rule adaptive_while.raw_induct[where Pa = ?Q, OF _ assms])
    fix f P stp resp i acc s y
    assume IH: "\<And>P stp resp i acc s y. f P stp resp i acc s = Some y
                  \<Longrightarrow> ?Q (((((P, stp), resp), i), acc), s) y"
      and body: "(if next_pos s < stp then
                    (case adaptive_iter P (readings P resp i) s of
                       Inl e \<Rightarrow> Some (acc @ iter_msgs P (next_pos s), Raised e)
                     | Inr s' \<Rightarrow> f P stp resp (Suc i) (acc @ iter_msgs P (next_pos s)) s')
                  else Some (acc @ map (\<lambda>d. Msg Deconfigure (Some d) [] None) (detectors P),
                             Finished)) = Some y"
    show "?Q (((((P, stp), resp), i), acc), s) y"
    proof (simp only: prod.case, rule notI)
      assume a: "P = P_stuck \<and> resp = resp_other \<and> stp = 1 \<and> next_pos s = 0 \<and> step s = 0
            \<and> past_I s = None \<and> cur_I s = None"
      then have it: "adaptive_iter P (readings P resp i) s = Inr s"
        by (simp add: adaptive_iter_def adaptive_update_def readings_def P_stuck_def
            resp_other_def)
      from body a it have "f P stp resp (Suc i) (acc @ iter_msgs P (next_pos s)) s = Some y"
        by simp
      from IH[OF this] a show False by simp
    qed
  qed
  then show ?thesis by simp
qed

text \<open>
  C4, at the input \<open>P_stuck\<close> (\<open>min_step = max_step = 1\<close>, from 0 to 1) with a detector
  that never gives the target field: the scan yields messages forever.
\<close>

theorem adaptive_scan_never_ends:
  "AdaptiveAscan_gen P_stuck resp_other = None"
proof (cases "AdaptiveAscan_gen P_stuck resp_other")
  case None
  then show ?thesis .
next
  case (Some y)
  then have "adaptive_while P_stuck 1 resp_other 0
               (map (\<lambda>d. Msg Configure (Some d) [] None) (detectors P_stuck))
               (init_state P_stuck 0) = Some y"
    by (simp add: AdaptiveAscan_gen_def AdaptiveScan_gen_def P_stuck_def)
  from stuck_forever[OF this] show ?thesis by (simp add: init_state_def P_stuck_def)
qed

text \<open>The plans without a loop on readings have as many messages as their lists ask for.\<close>

lemma linear_plan_lengths:
  "length (fst (Count_gen dets num delay)) = 2 * length dets + nat num * (3 * length dets + 4)"
  "length (fst (Scan1D_gen mot dets stps)) = 2 * length dets + length stps * (3 * length dets + 6)"
proof -
  have c: "length (concat (replicate n (Count_cycle dets delay))) = n * (3 * length dets + 4)" for n
    by (induction n) (simp_all add: Count_cycle_def)
  show "length (fst (Count_gen dets num delay)) = 2 * length dets + nat num * (3 * length dets + 4)"
    by (simp add: Count_gen_def c)
  have s: "length (concat (map (Scan1D_cycle mot dets) xs)) = length xs * (3 * length dets + 6)" for xs
    by (induction xs) (simp_all add: Scan1D_cycle_def)
  show "length (fst (Scan1D_gen mot dets stps)) = 2 * length dets + length stps * (3 * length dets + 6)"
    by (simp add: Scan1D_gen_def s)
qed

section \<open>The ordering contract in the plans\<close>

lemma grouped_append_plain:
  "\<forall>m \<in> set xs. command m \<noteq> Set \<and> command m \<noteq> Trigger \<Longrightarrow> grouped (xs @ ys) = grouped ys"
  by (induction xs) auto

lemma wait_before_read_skip:
  "\<forall>m \<in> set xs. command m \<noteq> Wait \<and> command m \<noteq> Read
     \<Longrightarrow> wait_before_read g d (xs @ ys) = wait_before_read g d ys"
  by (induction xs) auto

lemma grouped_triggers:
  assumes "dets \<noteq> []"
  shows "grouped (map (\<lambda>det. Msg Trigger (Some det) [] (Some g)) ds
                  @ map (\<lambda>det. Msg Wait None [Str g] None) dets @ rest)
           = grouped rest"
proof (induction ds)
  case Nil
  show ?case by (simp add: grouped_append_plain Msg_def)
next
  case (Cons d ds)
  obtain x xs where dets: "dets = x # xs" using assms by (cases dets) auto
  have "wait_before_read g d (map (\<lambda>det. Msg Trigger (Some det) [] (Some g)) ds
                  @ map (\<lambda>det. Msg Wait None [Str g] None) dets @ rest)
        = wait_before_read g d (map (\<lambda>det. Msg Wait None [Str g] None) dets @ rest)"
    by (rule wait_before_read_skip) (simp add: Msg_def)
  also have "\<dots> = True" by (simp add: dets Msg_def)
  finally show ?case using Cons.IH by (simp add: Msg_def)
qed

lemma grouped_trigger_block:
  "grouped (map (\<lambda>det. Msg Trigger (Some det) [] (Some g)) dets
            @ map (\<lambda>det. Msg Wait None [Str g] None) dets @ rest) = grouped rest"
proof (cases dets)
  case Nil
  then show ?thesis by simp
next
  case (Cons x xs)
  then have "dets \<noteq> []" by simp
  from grouped_triggers[OF this, of g dets rest] show ?thesis .
qed

lemma grouped_Scan1D_cycle:
  "grouped (Scan1D_cycle mot dets x @ rest) = grouped rest"
proof -
  have "grouped (Scan1D_cycle mot dets x @ rest)
      = grouped (map (\<lambda>det. Msg Trigger (Some det) [] (Some ''B'')) dets
            @ map (\<lambda>det. Msg Wait None [Str ''B''] None) dets
            @ (map (\<lambda>det. Msg Read (Some det) [] None) dets @ [Msg Save None [] None] @ rest))"
    by (simp add: Scan1D_cycle_def Msg_def)
  also have "\<dots> = grouped (map (\<lambda>det. Msg Read (Some det) [] None) dets @ [Msg Save None [] None] @ rest)"
    by (rule grouped_trigger_block)
  also have "\<dots> = grouped ([Msg Save None [] None] @ rest)"
    by (rule grouped_append_plain) (simp add: Msg_def)
  also have "\<dots> = grouped rest" by (simp add: Msg_def)
  finally show ?thesis .
qed

lemma grouped_Count_cycle:
  "grouped (Count_cycle dets delay @ rest) = grouped rest"
proof -
  have "grouped (Count_cycle dets delay @ rest)
      = grouped (map (\<lambda>det. Msg Trigger (Some det) [] (Some ''A'')) dets
            @ map (\<lambda>det. Msg Wait None [Str ''A''] None) dets
            @ (map (\<lambda>det. Msg Read (Some det) [] None) dets
               @ [Msg Save None [] None, Msg Sleep None [Num delay] None] @ rest))"
    by (simp add: Count_cycle_def Msg_def)
  also have "\<dots> = grouped (map (\<lambda>det. Msg Read (Some det) [] None) dets
               @ [Msg Save None [] None, Msg Sleep None [Num delay] None] @ rest)"
    by (rule grouped_trigger_block)
  also have "\<dots> = grouped ([Msg Save None [] None, Msg Sleep None [Num delay] None] @ rest)"
    by (rule grouped_append_plain) (simp add: Msg_def)
  also have "\<dots> = grouped rest" by (simp add: Msg_def)
  finally show ?thesis .
qed

text \<open>\<open>Scan1D\<close>, \<open>Count\<close> and \<open>Dscan\<close> keep the contract for every input.\<close>

lemma grouped_Scan1D: "grouped (fst (Scan1D_gen mot dets stps))"
proof -
  have c: "grouped (concat (map (Scan1D_cycle mot dets) stps) @ rest) = grouped rest" for rest
    by (induction stps) (simp_all add: grouped_Scan1D_cycle)
  have "grouped (fst (Scan1D_gen mot dets stps))
      = grouped (concat (map (Scan1D_cycle mot dets) stps)
                 @ map (\<lambda>d. Msg Deconfigure (Some d) [] None) dets)"
    unfolding Scan1D_gen_def fst_conv by (rule grouped_append_plain) (simp add: Msg_def)
  also have "\<dots> = grouped (map (\<lambda>d. Msg Deconfigure (Some d) [] None) dets @ [])"
    by (simp add: c)
  also have "\<dots> = grouped []" by (rule grouped_append_plain) (simp add: Msg_def)
  finally show ?thesis by simp
qed

lemma grouped_Count: "grouped (fst (Count_gen dets num delay))"
proof -
  have c: "grouped (concat (replicate n (Count_cycle dets delay)) @ rest) = grouped rest" for rest n
    by (induction n) (simp_all add: grouped_Count_cycle)
  have "grouped (fst (Count_gen dets num delay))
      = grouped (concat (replicate (nat num) (Count_cycle dets delay))
                 @ map (\<lambda>d. Msg Deconfigure (Some d) [] None) dets)"
    unfolding Count_gen_def fst_conv by (rule grouped_append_plain) (simp add: Msg_def)
  also have "\<dots> = grouped (map (\<lambda>d. Msg Deconfigure (Some d) [] None) dets @ [])"
    by (simp add: c)
  also have "\<dots> = grouped []" by (rule grouped_append_plain) (simp add: Msg_def)
  finally show ?thesis by simp
qed

lemma grouped_Dscan: "grouped (fst (Dscan_gen mot dets stps ret))"
  using grouped_Scan1D
  by (auto simp: Dscan_gen_def Msg_def split: sum.splits)

text \<open>
  C3, at the input \<open>P_short\<close> (one pass): the \<^verbatim>\<open>set\<close> of the adaptive scan has no
  \<^verbatim>\<open>block_group\<close>, while the \<^verbatim>\<open>wait\<close> after it is on the group \<open>A\<close>; the sequence does not
  keep the contract.
\<close>

theorem adaptive_set_without_group:
  "map_option (\<lambda>r. (map block_group (filter (\<lambda>m. command m = Set) (fst r)), grouped (fst r), snd r))
     (AdaptiveAscan_gen P_short resp_jump) = Some ([None], False, Finished)"
  apply (simp add: AdaptiveAscan_gen_def AdaptiveScan_gen_def)
  apply (subst adaptive_while.simps)
  apply (simp add: P_short_def init_state_def adaptive_iter_def adaptive_update_def readings_def resp_jump_def)
  apply (subst adaptive_while.simps)
  apply (simp add: iter_msgs_def Msg_def)
  done

section \<open>Properties of the linear plans\<close>

text \<open>
  C5: when the first read of the motor sends back more than one field, \<open>Dscan\<close> and
  \<open>AdaptiveDscan\<close> raise \<open>NotImplementedError\<close> after the \<open>logbook\<close> and the \<open>read\<close>
  messages; no other message is yielded, so no \<open>set\<close>.
\<close>

theorem multi_field_read_raises:
  assumes "length ret > 1"
  shows "Scan_iter lm (Dscan_gen mot dets stps ret)
           = ([Msg Logbook None [Str lm] None, Msg Read (Some mot) [] None],
              Raised NotImplementedError)
       \<and> map_option (Scan_iter lm) (AdaptiveDscan_gen P ret resp)
           = Some ([Msg Logbook None [Str lm] None, Msg Read (Some (motor P)) [] None],
                   Raised NotImplementedError)
       \<and> filter (\<lambda>m. command m = Set) (fst (Scan_iter lm (Dscan_gen mot dets stps ret))) = []
       \<and> map_option (\<lambda>r. filter (\<lambda>m. command m = Set) (fst (Scan_iter lm r)))
            (AdaptiveDscan_gen P ret resp) = Some []"
  using assms
  by (simp add: Scan_iter_def Dscan_gen_def AdaptiveDscan_gen_def current_value_def Msg_def)

theorem multi_field_read_raises_witness:
  "length [(''x'', PyNum 1), (''y'', PyNum 2)] > 1
   \<and> Scan_iter ''log''
        (Dscan_gen ''m'' [''det''] (NdArray [1, 2, 3]) [(''x'', PyNum 1), (''y'', PyNum 2)])
       = ([Msg Logbook None [Str ''log''] None, Msg Read (Some ''m'') [] None],
          Raised NotImplementedError)
   \<and> map_option (Scan_iter ''log'')
        (AdaptiveDscan_gen P_wide [(''x'', PyNum 1), (''y'', PyNum 2)] resp_jump)
       = Some ([Msg Logbook None [Str ''log''] None, Msg Read (Some (motor P_wide)) [] None],
               Raised NotImplementedError)"
  using multi_field_read_raises[of "[(''x'', PyNum 1), (''y'', PyNum 2)]" "''log''" "''m''"
      "[''det'']" "NdArray [1, 2, 3]" P_wide resp_jump]
  by simp

text \<open>
  C6, at the input of the spec: with the steps the Python list \<open>[1, 2, 3]\<close> and the
  position the Python number \<open>5.0\<close>, \<^verbatim>\<open>self.steps + current_value\<close> raises \<open>TypeError\<close>
  after the read of the motor, and no step is scanned.
\<close>

theorem Dscan_list_steps_raise:
  "Dscan_gen ''m'' [''det''] (PyList [1, 2, 3]) [(''m'', PyNum 5)]
     = ([Msg Read (Some ''m'') [] None], Raised TypeError)"
  by (simp add: Dscan_gen_def current_value_def)

text \<open>With an array of steps, or a numpy scalar read, the motor is set to the shifted steps.\<close>

lemma Dscan_shifted_steps:
  assumes "py_add stps v = Inr shifted"
  shows "items shifted = map (\<lambda>x. x + val v) (items stps)"
    and "Dscan_gen mot dets stps [(key, v)]
           = (Msg Read (Some mot) [] None # fst (Scan1D_gen mot dets (items shifted)), Finished)"
  using assms
  by (cases stps; cases v; auto simp: Dscan_gen_def current_value_def Scan1D_gen_def)+

lemma Scan1D_set_values:
  "map args (filter (\<lambda>m. command m = Set) (fst (Scan1D_gen mot dets stps))) = map (\<lambda>x. [Num x]) stps"
  by (induction stps) (auto simp: Scan1D_gen_def Scan1D_cycle_def Msg_def filter_map comp_def)

lemma linspace_nth:
  assumes "2 \<le> num" "i < nat num"
  shows "(map (\<lambda>i. if 1 < num \<and> int i = num - 1 then b
                  else if 0 < num - 1 then a + real i * ((b - a) / real_of_int (num - 1))
                  else a + real i * (b - a)) [0..<nat num]) ! i
         = a + (b - a) * real i / real_of_int (num - 1)"
proof (cases "int i = num - 1")
  case True
  then have r: "real i = real_of_int (num - 1)" by (metis of_int_of_nat_eq)
  have nz: "real_of_int (num - 1) \<noteq> 0" using assms by simp
  have "a + (b - a) * real_of_int (num - 1) / real_of_int (num - 1) = b"
    using nz by simp
  with True assms r show ?thesis by simp
next
  case False
  with assms show ?thesis by simp
qed

text \<open>\<open>LinAscan\<close> scans from \<open>start\<close> to \<open>stop\<close> when \<open>num\<close> is at least two.\<close>

lemma linspace_endpoints:
  assumes "2 \<le> num"
  shows "\<exists>xs. np_linspace a b num = Inr xs \<and> LinAscan_gen mot dets a b num = Scan1D_gen mot dets xs
           \<and> length xs = nat num \<and> hd xs = a \<and> last xs = b"
proof -
  let ?xs = "map (\<lambda>i. if 1 < num \<and> int i = num - 1 then b
                  else if 0 < num - 1 then a + real i * ((b - a) / real_of_int (num - 1))
                  else a + real i * (b - a)) [0..<nat num]"
  have lin: "np_linspace a b num = Inr ?xs"
    using assms by (simp add: np_linspace_def)
  have len: "length ?xs = nat num" by simp
  have pos: "0 < nat num" and last_i: "nat num - 1 < nat num" using assms by auto
  have ne: "?xs \<noteq> []" using pos by auto
  have "hd ?xs = ?xs ! 0" using ne by (rule hd_conv_nth)
  also have "\<dots> = a + (b - a) * real (0::nat) / real_of_int (num - 1)"
    using assms pos by (rule linspace_nth)
  finally have hd: "hd ?xs = a" by simp
  have r: "real (nat num - 1) = real_of_int (num - 1)" using assms by (simp add: of_nat_diff)
  have nz: "real_of_int (num - 1) \<noteq> 0" using assms by simp
  have "last ?xs = ?xs ! (length ?xs - 1)" using ne by (rule last_conv_nth)
  also have "\<dots> = ?xs ! (nat num - 1)" by (simp only: len)
  also have "\<dots> = a + (b - a) * real (nat num - 1) / real_of_int (num - 1)"
    using assms last_i by (rule linspace_nth)
  also have "\<dots> = b" using nz by (simp only: r) simp
  finally have last: "last ?xs = b" .
  have gen: "LinAscan_gen mot dets a b num = Scan1D_gen mot dets ?xs"
    by (simp only: LinAscan_gen_def lin sum.case)
  from lin gen len hd last show ?thesis by blast
qed

lemma logspace_Inr:
  assumes "2 \<le> num"
  shows "\<exists>ys. np_logspace a b num = Inr ys \<and> length ys = nat num
           \<and> (\<forall>i < nat num. ys ! i = 10 powr (a + (b - a) * real i / real_of_int (num - 1)))"
proof -
  let ?xs = "map (\<lambda>i. if 1 < num \<and> int i = num - 1 then b
                  else if 0 < num - 1 then a + real i * ((b - a) / real_of_int (num - 1))
                  else a + real i * (b - a)) [0..<nat num]"
  have lin: "np_linspace a b num = Inr ?xs"
    using assms by (simp add: np_linspace_def)
  have log: "np_logspace a b num = Inr (map (\<lambda>y. 10 powr y) ?xs)"
    by (simp only: np_logspace_def lin sum.case)
  have len: "length (map (\<lambda>y. 10 powr y) ?xs) = nat num" by simp
  have nth: "\<forall>i < nat num. map (\<lambda>y. 10 powr y) ?xs ! i
               = 10 powr (a + (b - a) * real i / real_of_int (num - 1))"
  proof (intro allI impI)
    fix i assume i: "i < nat num"
    then have "i < length ?xs" by simp
    then have "map (\<lambda>y. 10 powr y) ?xs ! i = 10 powr (?xs ! i)" by (rule nth_map)
    also have "?xs ! i = a + (b - a) * real i / real_of_int (num - 1)"
      using assms i by (rule linspace_nth)
    finally show "map (\<lambda>y. 10 powr y) ?xs ! i
               = 10 powr (a + (b - a) * real i / real_of_int (num - 1))" .
  qed
  from log len nth show ?thesis by blast
qed

text \<open>
  C7, at \<open>LogAscan(motor, [det], start=0, stop=1, num=2)\<close>: the steps are
  \<^verbatim>\<open>np.logspace(0, 1, 2)\<close>, that is 1 and 10, and the motor is set to 1 and then to 10:
  the first step is not \<open>start\<close> and the last is not \<open>stop\<close>.
\<close>

theorem LogAscan_first_is_not_start:
  "np_logspace 0 1 2 = Inr [1, 10]
   \<and> map args (filter (\<lambda>m. command m = Set) (fst (LogAscan_gen ''m'' [''det''] 0 1 2)))
       = [[Num 1], [Num 10]]
   \<and> snd (LogAscan_gen ''m'' [''det''] 0 1 2) = Finished"
proof -
  have l: "np_logspace 0 1 2 = Inr [1, 10]"
    by (simp add: np_logspace_def np_linspace_def numeral_2_eq_2)
  show ?thesis
    by (simp add: l LogAscan_gen_def Scan1D_gen_def Scan1D_cycle_def Msg_def)
qed

text \<open>
  What \<open>LogAscan\<close> scans for \<open>num\<close> at least two: the first point is ten to the power
  \<open>start\<close>, the last is ten to the power \<open>stop\<close>, and point \<open>i\<close> is ten to the power of
  the linear interpolation between \<open>start\<close> and \<open>stop\<close>.
\<close>

lemma logspace_endpoints:
  assumes "2 \<le> num"
  shows "\<exists>ys. np_logspace a b num = Inr ys
          \<and> LogAscan_gen mot dets a b num = Scan1D_gen mot dets ys
          \<and> length ys = nat num \<and> hd ys = 10 powr a \<and> last ys = 10 powr b
          \<and> (\<forall>i < nat num. ys ! i = 10 powr (a + (b - a) * real i / real_of_int (num - 1)))"
proof -
  from logspace_Inr[OF assms] obtain ys where
    ys: "np_logspace a b num = Inr ys" and len: "length ys = nat num"
    and nth: "\<forall>i < nat num. ys ! i = 10 powr (a + (b - a) * real i / real_of_int (num - 1))"
    by blast
  have pos: "0 < nat num" and last_i: "nat num - 1 < nat num" using assms by auto
  have ne: "ys \<noteq> []" using len pos by auto
  have "hd ys = ys ! 0" using ne by (simp add: hd_conv_nth)
  also have "\<dots> = 10 powr a" using nth pos by simp
  finally have hd: "hd ys = 10 powr a" .
  have r: "real (nat num - 1) = real_of_int (num - 1)" using assms by (simp add: of_nat_diff)
  have nz: "real_of_int (num - 1) \<noteq> 0" using assms by simp
  have "last ys = ys ! (nat num - 1)" using ne len by (simp add: last_conv_nth)
  also have "\<dots> = 10 powr (a + (b - a) * real (nat num - 1) / real_of_int (num - 1))"
    using nth last_i by blast
  also have "\<dots> = 10 powr b" using nz by (simp only: r) simp
  finally have last: "last ys = 10 powr b" .
  have gen: "LogAscan_gen mot dets a b num = Scan1D_gen mot dets ys"
    by (simp add: LogAscan_gen_def ys)
  from ys gen len hd last nth show ?thesis by blast
qed

lemma logspace_endpoints_at_two:
  "(2::int) \<le> 2 \<and> (\<exists>ys. np_logspace 0 1 2 = Inr ys
          \<and> LogAscan_gen ''m'' [''det''] 0 1 2 = Scan1D_gen ''m'' [''det''] ys
          \<and> length ys = nat 2 \<and> hd ys = 10 powr 0 \<and> last ys = 10 powr 1)"
  using logspace_endpoints[of 2 0 1 "''m''" "[''det'']"] by auto

section \<open>Properties of the label index\<close>

text \<open>
  C8, at a namespace with one device, an instance that has two labelled components:
  \<^verbatim>\<open>is_parent\<close> holds of classes only, so the device is not recursed into; the index
  has the label of the device itself and not the labels of its components.
\<close>

theorem instance_parent_not_recursed:
  "get_labeled_devices [(''stage'', stage)] 6 = ([(''stages'', [(''stage'', stage)])], [])"
  by (simp add: is_parent_def stage_def startswith_underscore_def append_label_def)

text \<open>The same device as a class is recursed into, and only its components are indexed.\<close>

lemma class_parent_recursed:
  "get_labeled_devices [(''stage'', stage_class)] 6
     = ([(''motors'', [(''x'', motor_x), (''y'', motor_y)])], [])"
  by (simp add: is_parent_def stage_class_def motor_x_def motor_y_def startswith_underscore_def
      append_label_def dict_update_def)

text \<open>With a depth of zero or less the index is empty and there is one warning.\<close>

lemma depth_zero_empty:
  "maxdepth \<le> 0 \<Longrightarrow> get_labeled_devices user_ns maxdepth = ([], [''Recursion limit exceeded''])"
  by simp

section \<open>Properties of the positioner report\<close>

text \<open>
  C9: a positioner whose \<open>position\<close> raises gets a row with the name of the exception in
  the value column and empty limit and offset columns, whatever its limits and offset
  are. For a positioner whose \<open>position\<close> can be read, the limits and the offset are each
  read on their own: an exception in one of them is shown by its name in its columns,
  and the other columns show the rounded values. After the header line the report has
  the rows of the positioners and no other: in the given order without sorting, and
  with sorting one row for every distinct positioner, in the order of the names.
\<close>

theorem report_row_fields:
  "(\<forall>exc. position p = Inl exc \<longrightarrow>
      positioner_row dflt p = \<lparr>r_name = pname p, r_value = Text exc, r_low_limit = Text [],
                               r_high_limit = Text [], r_offset = Text []\<rparr>)
   \<and> (\<forall>v. position p = Inr v \<longrightarrow>
        r_name (positioner_row dflt p) = pname p
        \<and> r_value (positioner_row dflt p)
            = Number (np_round v (case precision p of Inr pr \<Rightarrow> pr | Inl e \<Rightarrow> dflt))
        \<and> (r_low_limit (positioner_row dflt p), r_high_limit (positioner_row dflt p))
            = (case limits p of
                 Inl exc \<Rightarrow> (Text exc, Text exc)
               | Inr (lo, hi) \<Rightarrow>
                   (Number (np_round lo (case precision p of Inr pr \<Rightarrow> pr | Inl e \<Rightarrow> dflt)),
                    Number (np_round hi (case precision p of Inr pr \<Rightarrow> pr | Inl e \<Rightarrow> dflt))))
        \<and> r_offset (positioner_row dflt p)
            = (case user_offset p of
                 Inl exc \<Rightarrow> Text exc
               | Inr off \<Rightarrow> Number (np_round off (case precision p of Inr pr \<Rightarrow> pr | Inl e \<Rightarrow> dflt))))
   \<and> length (print_positioners shw ps False dflt prefix) = Suc (length ps)
   \<and> (\<forall>i < length ps. print_positioners shw ps False dflt prefix ! Suc i
          = row_line shw prefix (positioner_row dflt (ps ! i)))
   \<and> hd (print_positioners shw ps srt dflt prefix)
       = LINE_FMT prefix [''Positioner'', ''Value'', ''Low Limit'', ''High Limit'', ''Offset'']
   \<and> set (tl (print_positioners shw ps srt dflt prefix))
       = (\<lambda>p. row_line shw prefix (positioner_row dflt p)) ` set ps
   \<and> tl (print_positioners shw ps True dflt prefix)
       = map (\<lambda>p. row_line shw prefix (positioner_row dflt p)) (sort_key pname (remdups ps))
   \<and> length (print_positioners shw ps True dflt prefix) = Suc (card (set ps))
   \<and> sorted (map pname (sort_key pname (remdups ps)))
   \<and> (\<forall>q \<in> set ps. row_line shw prefix (positioner_row dflt q)
                        \<in> set (tl (print_positioners shw ps True dflt prefix)))"
proof -
  have old: "(\<forall>exc. position p = Inl exc \<longrightarrow>
      positioner_row dflt p = \<lparr>r_name = pname p, r_value = Text exc, r_low_limit = Text [],
                               r_high_limit = Text [], r_offset = Text []\<rparr>)
   \<and> (\<forall>v. position p = Inr v \<longrightarrow>
        r_name (positioner_row dflt p) = pname p
        \<and> r_value (positioner_row dflt p)
            = Number (np_round v (case precision p of Inr pr \<Rightarrow> pr | Inl e \<Rightarrow> dflt))
        \<and> (r_low_limit (positioner_row dflt p), r_high_limit (positioner_row dflt p))
            = (case limits p of
                 Inl exc \<Rightarrow> (Text exc, Text exc)
               | Inr (lo, hi) \<Rightarrow>
                   (Number (np_round lo (case precision p of Inr pr \<Rightarrow> pr | Inl e \<Rightarrow> dflt)),
                    Number (np_round hi (case precision p of Inr pr \<Rightarrow> pr | Inl e \<Rightarrow> dflt))))
        \<and> r_offset (positioner_row dflt p)
            = (case user_offset p of
                 Inl exc \<Rightarrow> Text exc
               | Inr off \<Rightarrow> Number (np_round off (case precision p of Inr pr \<Rightarrow> pr | Inl e \<Rightarrow> dflt))))
   \<and> length (print_positioners shw ps False dflt prefix) = Suc (length ps)
   \<and> (\<forall>i < length ps. print_positioners shw ps False dflt prefix ! Suc i
          = row_line shw prefix (positioner_row dflt (ps ! i)))"
    by (auto simp: positioner_row_def print_positioners_def Let_def split: sum.splits prod.splits)
  have h: "hd (print_positioners shw ps srt dflt prefix)
       = LINE_FMT prefix [''Positioner'', ''Value'', ''Low Limit'', ''High Limit'', ''Offset'']"
    by (simp add: print_positioners_def Let_def)
  have st: "set (tl (print_positioners shw ps srt dflt prefix))
       = (\<lambda>p. row_line shw prefix (positioner_row dflt p)) ` set ps"
    by (simp add: print_positioners_def Let_def)
  have t: "tl (print_positioners shw ps True dflt prefix)
       = map (\<lambda>p. row_line shw prefix (positioner_row dflt p)) (sort_key pname (remdups ps))"
    by (simp add: print_positioners_def Let_def)
  have l: "length (print_positioners shw ps True dflt prefix) = Suc (card (set ps))"
    by (simp add: print_positioners_def Let_def length_remdups_card_conv)
  have so: "sorted (map pname (sort_key pname (remdups ps)))"
    by (rule sorted_sort_key)
  have m: "\<forall>q \<in> set ps. row_line shw prefix (positioner_row dflt q)
                        \<in> set (tl (print_positioners shw ps True dflt prefix))"
    by (simp add: t)
  from old h st t l so m show ?thesis by blast
qed

theorem report_row_fields_witness:
  "position p_nolimits = Inr 1
   \<and> r_value (positioner_row 6 p_nolimits) = Number 1
   \<and> (r_low_limit (positioner_row 6 p_nolimits), r_high_limit (positioner_row 6 p_nolimits))
        = (Text ''AttributeError'', Text ''AttributeError'')
   \<and> r_offset (positioner_row 6 p_nolimits) = Number 0
   \<and> position p_down = Inl ''DisconnectedError''
   \<and> r_value (positioner_row 6 p_down) = Text ''DisconnectedError''
   \<and> (1::nat) < length [p_down, p_nolimits]
   \<and> print_positioners (\<lambda>x. ''?'') [p_down, p_nolimits] False 6 [] ! Suc 1
        = row_line (\<lambda>x. ''?'') [] (positioner_row 6 ([p_down, p_nolimits] ! 1))
   \<and> p_nolimits \<in> set [p_nolimits, p_down, p_nolimits]
   \<and> row_line (\<lambda>x. ''?'') [] (positioner_row 6 p_nolimits)
        \<in> set (tl (print_positioners (\<lambda>x. ''?'') [p_nolimits, p_down, p_nolimits] True 6 []))
   \<and> length (print_positioners (\<lambda>x. ''?'') [p_nolimits, p_down, p_nolimits] True 6 []) = 3"
proof -
  have r0: "np_round 0 3 = 0" "np_round 1 3 = 1"
    by (simp_all add: np_round_def round_half_even_def Let_def)
  have ne: "p_nolimits \<noteq> p_down" by (simp add: p_nolimits_def p_down_def)
  have "set [p_nolimits, p_down, p_nolimits] = {p_nolimits, p_down}" by auto
  then have c: "Suc (card (set [p_nolimits, p_down, p_nolimits])) = 3" using ne by simp
  have a: "position p_nolimits = Inr 1
   \<and> r_value (positioner_row 6 p_nolimits) = Number 1
   \<and> (r_low_limit (positioner_row 6 p_nolimits), r_high_limit (positioner_row 6 p_nolimits))
        = (Text ''AttributeError'', Text ''AttributeError'')
   \<and> r_offset (positioner_row 6 p_nolimits) = Number 0
   \<and> position p_down = Inl ''DisconnectedError''
   \<and> r_value (positioner_row 6 p_down) = Text ''DisconnectedError''
   \<and> (1::nat) < length [p_down, p_nolimits]
   \<and> print_positioners (\<lambda>x. ''?'') [p_down, p_nolimits] False 6 [] ! Suc 1
        = row_line (\<lambda>x. ''?'') [] (positioner_row 6 ([p_down, p_nolimits] ! 1))"
    using report_row_fields[where p = p_nolimits and dflt = 6 and shw = "\<lambda>x. ''?''"
          and ps = "[p_down, p_nolimits]" and prefix = "[]" and srt = True]
      report_row_fields[where p = p_down and dflt = 6 and shw = "\<lambda>x. ''?''"
          and ps = "[p_down, p_nolimits]" and prefix = "[]" and srt = True] r0
    by (simp add: p_nolimits_def p_down_def)
  note T = report_row_fields[where p = p_nolimits and dflt = 6 and shw = "\<lambda>x. ''?''"
          and ps = "[p_nolimits, p_down, p_nolimits]" and prefix = "[]" and srt = True]
  have i: "p_nolimits \<in> set [p_nolimits, p_down, p_nolimits]" by simp
  from T have m: "\<forall>q \<in> set [p_nolimits, p_down, p_nolimits].
        row_line (\<lambda>x. ''?'') [] (positioner_row 6 q)
          \<in> set (tl (print_positioners (\<lambda>x. ''?'') [p_nolimits, p_down, p_nolimits] True 6 []))"
    by blast
  from T have l: "length (print_positioners (\<lambda>x. ''?'') [p_nolimits, p_down, p_nolimits] True 6 [])
      = Suc (card (set [p_nolimits, p_down, p_nolimits]))"
    by blast
  from m i have b: "row_line (\<lambda>x. ''?'') [] (positioner_row 6 p_nolimits)
        \<in> set (tl (print_positioners (\<lambda>x. ''?'') [p_nolimits, p_down, p_nolimits] True 6 []))"
    by blast
  from a i b l c show ?thesis by simp
qed

text \<open>
  The positioner \<open>p_down\<close> has limits and an offset; its row shows none of them.
\<close>

theorem unreadable_position_blanks_row:
  "limits p_down = Inr (0, 10) \<and> user_offset p_down = Inr 0
   \<and> positioner_row 6 p_down
       = \<lparr>r_name = ''th'', r_value = Text ''DisconnectedError'', r_low_limit = Text [],
          r_high_limit = Text [], r_offset = Text []\<rparr>"
  by (simp add: positioner_row_def p_down_def)

end
